theory Spec2Isabelle
  imports Main
begin

section \<open>JavaScript values\<close>

text \<open>
  The plugin works on the parsed serverless configuration and on a parsed OpenAPI
  document: plain JSON-like JavaScript values. Numbers are modelled as integers (status
  codes are the only numbers the plugin writes). An object is the list of its own
  enumerable properties in insertion order. A named property stored on an array is not
  part of the array's JSON value and is dropped by the model.
\<close>

datatype jv =
    JUndefined
  | JNull
  | JBool bool
  | JNum int
  | JStr string
  | JArr "jv list"
  | JObj "(string \<times> jv) list"

type_synonym jobj = "(string \<times> jv) list"

text \<open>Truthiness, as \<^verbatim>\<open>if (v)\<close>, \<^verbatim>\<open>!v\<close> and \<^verbatim>\<open>v || w\<close> test it.\<close>

fun truthy :: "jv \<Rightarrow> bool" where
  "truthy JUndefined = False"
| "truthy JNull = False"
| "truthy (JBool b) = b"
| "truthy (JNum n) = (n \<noteq> 0)"
| "truthy (JStr s) = (s \<noteq> [])"
| "truthy (JArr xs) = True"
| "truthy (JObj kvs) = True"

text \<open>\<^verbatim>\<open>o[k]\<close> on an object: the property's value, or undefined.\<close>

fun obj_get :: "jobj \<Rightarrow> string \<Rightarrow> jv" where
  "obj_get [] k = JUndefined"
| "obj_get ((k', v) # kvs) k = (if k' = k then v else obj_get kvs k)"

text \<open>\<^verbatim>\<open>o[k] = v\<close> on an object: an existing property keeps its place, a new one is added last.\<close>

fun obj_set :: "jobj \<Rightarrow> string \<Rightarrow> jv \<Rightarrow> jobj" where
  "obj_set [] k v = [(k, v)]"
| "obj_set ((k', v') # kvs) k v = (if k' = k then (k, v) # kvs else (k', v') # obj_set kvs k v)"

text \<open>\<^verbatim>\<open>Object.assign(target, source)\<close>: every property of the source is assigned, in order.\<close>

fun obj_assign :: "jobj \<Rightarrow> jobj \<Rightarrow> jobj" where
  "obj_assign target [] = target"
| "obj_assign target ((k, v) # src) = obj_assign (obj_set target k v) src"

text \<open>
  Reading a property \<open>k\<close> of a value that is neither null nor undefined, for the keys
  the plugin reads (none of them is a built-in property of a string or an array).
\<close>

fun doc_get :: "jv \<Rightarrow> string \<Rightarrow> jv" where
  "doc_get (JObj kvs) k = obj_get kvs k"
| "doc_get v k = JUndefined"

subsection \<open>Strings\<close>

text \<open>
  A string is the list of the bytes of its UTF-8 encoding, so a byte below 128 is an
  ASCII character. \<^verbatim>\<open>toLowerCase\<close> is applied to the method only, and its result is
  only compared with the ASCII words delete, patch, put, post and get. No character
  outside ASCII lower-cases to a letter of these words, so lower-casing the ASCII
  letters and leaving every other byte alone decides these comparisons as the code does.
\<close>

definition lower_char :: "char \<Rightarrow> char" where
  "lower_char c = (let n = (of_char c :: nat) in if 65 \<le> n \<and> n \<le> 90 then char_of (n + 32) else c)"

definition upper_char :: "char \<Rightarrow> char" where
  "upper_char c = (let n = (of_char c :: nat) in if 97 \<le> n \<and> n \<le> 122 then char_of (n - 32) else c)"

definition toLowerCase :: "string \<Rightarrow> string" where
  "toLowerCase s = map lower_char s"

definition is_ascii :: "string \<Rightarrow> bool" where
  "is_ascii s = list_all (\<lambda>c. (of_char c :: nat) < 128) s"

text \<open>
  lodash's \<^verbatim>\<open>upperFirst\<close>. On a string of ASCII characters it upper-cases the first
  character with \<^verbatim>\<open>toUpperCase\<close> and keeps the rest. On any other string its result
  depends on the Unicode tables (the first symbol may be several code units, and its
  upper case several characters): that case is the parameter \<open>unicodeUpperFirst\<close>.
\<close>

definition upperFirst :: "(string \<Rightarrow> string) \<Rightarrow> string \<Rightarrow> string" where
  "upperFirst unicodeUpperFirst s =
     (if is_ascii s then (case s of [] \<Rightarrow> [] | c # cs \<Rightarrow> upper_char c # cs)
      else unicodeUpperFirst s)"

section \<open>Errors and plugin state\<close>

text \<open>
  Every exception is a value. The plugin throws a plain \<^verbatim>\<open>Error\<close> whose message
  interpolates the array \<^verbatim>\<open>functionsMissingDocumentation\<close>; the model keeps that array as
  the payload of \<open>MissingDocumentationError\<close>. \<open>SchemaResolutionError\<close> is whatever
  \<^verbatim>\<open>createSchema\<close> throws; \<open>TypeError\<close> is the JavaScript runtime's own.
\<close>

datatype error =
    TypeError
  | SchemaResolutionError string
  | MissingDocumentationError "string list"
  | YAMLException

text \<open>Calls made to the external schema generator library, in order.\<close>

datatype call = CreateGenerator | CreateSchema string

text \<open>
  The fields of the plugin object and of \<^verbatim>\<open>serverless.service.custom.documentation\<close> that
  the code reads or writes. \<open>models\<close> is \<^verbatim>\<open>custom.documentation.models\<close>: an array of
  model definitions, or \<open>None\<close> when the key is absent. \<open>schemaGenerator\<close> says whether
  \<^verbatim>\<open>this.schemaGenerator\<close> is set.
\<close>

record plugin =
  apiNamespace :: string
  models :: "jv list option"
  functionsMissingDocumentation :: "string list"
  schemaGenerator :: bool
  calls :: "call list"

text \<open>
  An http event. \<open>http_method\<close> is \<^verbatim>\<open>httpEvent.method\<close>, a string;
  \<open>private_flag\<close> is the truthiness of \<^verbatim>\<open>httpEvent.private\<close>; \<open>documentation\<close>
  is the value of \<^verbatim>\<open>httpEvent.documentation\<close> (undefined when the key is absent);
  \<open>paths\<close> and \<open>querystrings\<close> are \<^verbatim>\<open>Object.entries\<close> of
  \<^verbatim>\<open>request.parameters.paths\<close> and \<^verbatim>\<open>request.parameters.querystrings\<close> (empty when absent).
\<close>

record http_event =
  http_method :: string
  private_flag :: bool
  documentation :: jv
  paths :: "(string \<times> jv) list"
  querystrings :: "(string \<times> jv) list"

text \<open>An event is its \<^verbatim>\<open>http\<close> member, \<open>None\<close> when that is absent.\<close>

type_synonym event = "http_event option"

text \<open>The external schema generator: \<open>None\<close> when \<^verbatim>\<open>createSchema\<close> throws.\<close>

type_synonym resolver = "string \<Rightarrow> jv option"

section \<open>Schema generation and the model registry\<close>

text \<open>
  \<^verbatim>\<open>generateSchema\<close>: the generator object is created on first use and kept in
  \<^verbatim>\<open>this.schemaGenerator\<close>; \<^verbatim>\<open>createSchema\<close> is then called on it.
\<close>

definition generateSchema :: "resolver \<Rightarrow> plugin \<Rightarrow> string \<Rightarrow> error + (jv \<times> plugin)" where
  "generateSchema resolve st modelName =
     (let st1 = (if schemaGenerator st then st
                 else st\<lparr>schemaGenerator := True, calls := calls st @ [CreateGenerator]\<rparr>);
          st2 = st1\<lparr>calls := calls st1 @ [CreateSchema modelName]\<rparr>
      in case resolve modelName of
           None \<Rightarrow> Inl (SchemaResolutionError modelName)
         | Some schema \<Rightarrow> Inr (schema, st2))"

text \<open>The entries of the registry: the elements of \<open>models\<close>, none when the key is absent.\<close>

fun registry :: "jv list option \<Rightarrow> jv list" where
  "registry (Some xs) = xs"
| "registry None = []"

definition model_entry :: "string \<Rightarrow> jv \<Rightarrow> jv" where
  "model_entry modelName schema =
     JObj [(''name'', JStr modelName), (''contentType'', JStr ''application/json''), (''schema'', schema)]"

text \<open>
  \<^verbatim>\<open>setModel\<close>: the schema is generated first (it is an argument of the merge). lodash's
  \<^verbatim>\<open>mergeWith\<close> then reaches \<^verbatim>\<open>documentation.models\<close>: the customizer concatenates when
  the destination is an array; when the key is absent the default merge starts from an
  empty array and copies the one new entry into it.
\<close>

definition setModel :: "resolver \<Rightarrow> plugin \<Rightarrow> string \<Rightarrow> error + plugin" where
  "setModel resolve st modelName =
     (case generateSchema resolve st modelName of
        Inl e \<Rightarrow> Inl e
      | Inr (schema, st1) \<Rightarrow>
          Inr (st1\<lparr>models := Some (registry (models st1) @ [model_entry modelName schema])\<rparr>))"

section \<open>Model synthesis\<close>

text \<open>
  lodash's \<^verbatim>\<open>set(httpEvent, 'documentation.<key>', v)\<close>: a documentation value that is not
  an object is replaced by a fresh object before the key is assigned.
\<close>

fun lodash_set :: "jv \<Rightarrow> string \<Rightarrow> jv \<Rightarrow> jv" where
  "lodash_set (JObj kvs) k v = JObj (obj_set kvs k v)"
| "lodash_set (JArr xs) k v = JArr xs"
| "lodash_set d k v = JObj [(k, v)]"

definition response_200 :: "string \<Rightarrow> jv" where
  "response_200 responseModelName =
     JArr [JObj [(''statusCode'', JNum 200),
                 (''responseBody'', JObj [(''description'', JStr [])]),
                 (''responseModels'', JObj [(''application/json'', JStr responseModelName)])]]"

definition response_204 :: jv where
  "response_204 = JArr [JObj [(''statusCode'', JNum 204), (''responseModels'', JObj [])]]"

text \<open>The \<^verbatim>\<open>case 'get'\<close> arm of the switch, also reached by falling through.\<close>

definition setModels_get :: "resolver \<Rightarrow> plugin \<Rightarrow> http_event \<Rightarrow> string \<Rightarrow> error + (plugin \<times> http_event)" where
  "setModels_get resolve st httpEvent definitionPrefix =
     (let responseModelName = definitionPrefix @ ''.Response'' in
      case setModel resolve st responseModelName of
        Inl e \<Rightarrow> Inl e
      | Inr st1 \<Rightarrow>
          Inr (st1, httpEvent\<lparr>documentation :=
                 lodash_set (documentation httpEvent) ''methodResponses'' (response_200 responseModelName)\<rparr>))"

definition setModels ::
  "resolver \<Rightarrow> (string \<Rightarrow> string) \<Rightarrow> plugin \<Rightarrow> http_event \<Rightarrow> string \<Rightarrow> error + (plugin \<times> http_event)" where
  "setModels resolve unicodeUpperFirst st httpEvent functionName =
     (let definitionPrefix = apiNamespace st @ ''.'' @ upperFirst unicodeUpperFirst functionName;
          m = toLowerCase (http_method httpEvent) in
      if m = ''delete'' then
        Inr (st, httpEvent\<lparr>documentation :=
               lodash_set (documentation httpEvent) ''methodResponses'' response_204\<rparr>)
      else if m = ''patch'' \<or> m = ''put'' \<or> m = ''post'' then
        (let requestModelName = definitionPrefix @ ''.Request.Body'' in
         case setModel resolve st requestModelName of
           Inl e \<Rightarrow> Inl e
         | Inr st1 \<Rightarrow>
             (let d1 = lodash_set (documentation httpEvent) ''requestModels''
                         (JObj [(''application/json'', JStr requestModelName)]);
                  d2 = lodash_set d1 ''requestBody'' (JObj [(''description'', JStr [])])
              in setModels_get resolve st1 (httpEvent\<lparr>documentation := d2\<rparr>) definitionPrefix))
      else if m = ''get'' then setModels_get resolve st httpEvent definitionPrefix
      else Inr (st, httpEvent))"

section \<open>Parameter defaults\<close>

text \<open>
  \<^verbatim>\<open>documentedParams.find(p => p.name === name)\<close>: the index of the first element whose
  \<^verbatim>\<open>name\<close> is the string; reading \<^verbatim>\<open>name\<close> of a null or undefined element throws.
\<close>

fun find_param :: "jv list \<Rightarrow> string \<Rightarrow> error + nat option" where
  "find_param [] name = Inr None"
| "find_param (JUndefined # ps) name = Inl TypeError"
| "find_param (JNull # ps) name = Inl TypeError"
| "find_param (p # ps) name =
     (if doc_get p ''name'' = JStr name then Inr (Some 0)
      else case find_param ps name of
             Inl e \<Rightarrow> Inl e
           | Inr None \<Rightarrow> Inr None
           | Inr (Some i) \<Rightarrow> Inr (Some (Suc i)))"

definition paramDocumentationFromSls :: "string \<Rightarrow> jv \<Rightarrow> jobj" where
  "paramDocumentationFromSls name required =
     [(''name'', JStr name), (''required'', required), (''schema'', JObj [(''type'', JStr ''string'')])]"

text \<open>
  The two \<^verbatim>\<open>Object.assign\<close> calls on an existing entry: the defaults take the entry's
  properties, then the entry takes the result.
\<close>

definition merge_param :: "jobj \<Rightarrow> string \<Rightarrow> jv \<Rightarrow> jobj" where
  "merge_param existing name required =
     obj_assign existing (obj_assign (paramDocumentationFromSls name required) existing)"

text \<open>
  The string-schema step on an existing entry: \<^verbatim>\<open>typeof existing.schema === 'string'\<close>.
\<close>

definition resolve_param_schema :: "resolver \<Rightarrow> plugin \<Rightarrow> jobj \<Rightarrow> error + (plugin \<times> jobj)" where
  "resolve_param_schema resolve st existing =
     (case obj_get existing ''schema'' of
        JStr s \<Rightarrow>
          (case generateSchema resolve st s of
             Inl e \<Rightarrow> Inl e
           | Inr (schema, st1) \<Rightarrow> Inr (st1, obj_set existing ''schema'' schema))
      | _ \<Rightarrow> Inr (st, existing))"

text \<open>
  One round of the \<^verbatim>\<open>forEach\<close> in \<^verbatim>\<open>setDefaultParamsDocumentation\<close>, on the documentation
  value. The file is in strict mode: creating a property on a primitive throws, and so
  does calling \<^verbatim>\<open>find\<close> on a value that is not an array.
\<close>

definition param_step :: "resolver \<Rightarrow> string \<Rightarrow> plugin \<Rightarrow> jv \<Rightarrow> string \<Rightarrow> jv \<Rightarrow> error + (plugin \<times> jv)" where
  "param_step resolve documentationKey st doc name required =
     (case doc of
        JObj kvs \<Rightarrow>
          (let cur = obj_get kvs documentationKey;
               arr = (if truthy cur then cur else JArr [])
           in case arr of
                JArr documentedParams \<Rightarrow>
                  (case find_param documentedParams name of
                     Inl e \<Rightarrow> Inl e
                   | Inr None \<Rightarrow>
                       Inr (st, JObj (obj_set kvs documentationKey
                              (JArr (documentedParams @ [JObj (paramDocumentationFromSls name required)]))))
                   | Inr (Some i) \<Rightarrow>
                       (case documentedParams ! i of
                          JObj existing \<Rightarrow>
                            (case resolve_param_schema resolve st existing of
                               Inl e \<Rightarrow> Inl e
                             | Inr (st1, existing1) \<Rightarrow>
                                 Inr (st1, JObj (obj_set kvs documentationKey
                                        (JArr (list_update documentedParams i (JObj (merge_param existing1 name required)))))))
                        | _ \<Rightarrow> Inl TypeError))
              | _ \<Rightarrow> Inl TypeError)
      | JArr xs \<Rightarrow> Inr (st, JArr xs)
      | _ \<Rightarrow> Inl TypeError)"

fun param_steps :: "resolver \<Rightarrow> string \<Rightarrow> plugin \<Rightarrow> jv \<Rightarrow> (string \<times> jv) list \<Rightarrow> error + (plugin \<times> jv)" where
  "param_steps resolve documentationKey st doc [] = Inr (st, doc)"
| "param_steps resolve documentationKey st doc ((name, required) # entries) =
     (case param_step resolve documentationKey st doc name required of
        Inl e \<Rightarrow> Inl e
      | Inr (st1, doc1) \<Rightarrow> param_steps resolve documentationKey st1 doc1 entries)"

definition setDefaultParamsDocumentation ::
  "resolver \<Rightarrow> plugin \<Rightarrow> (string \<times> jv) list \<Rightarrow> http_event \<Rightarrow> string \<Rightarrow> error + (plugin \<times> http_event)" where
  "setDefaultParamsDocumentation resolve st params httpEvent documentationKey =
     (case param_steps resolve documentationKey st (documentation httpEvent) params of
        Inl e \<Rightarrow> Inl e
      | Inr (st1, doc1) \<Rightarrow> Inr (st1, httpEvent\<lparr>documentation := doc1\<rparr>))"

section \<open>Scanning the functions\<close>

text \<open>
  The body of \<^verbatim>\<open>events.forEach\<close> for one event of the function \<open>functionName\<close>. The
  http event is changed in place; the model returns the changed event.
\<close>

definition scan_event ::
  "resolver \<Rightarrow> (string \<Rightarrow> string) \<Rightarrow> string \<Rightarrow> plugin \<Rightarrow> event \<Rightarrow> error + (plugin \<times> event)" where
  "scan_event resolve unicodeUpperFirst functionName st ev =
     (case ev of
        None \<Rightarrow> Inr (st, None)
      | Some httpEvent \<Rightarrow>
          if truthy (documentation httpEvent) then
            (case setModels resolve unicodeUpperFirst st httpEvent functionName of
               Inl e \<Rightarrow> Inl e
             | Inr (st1, h1) \<Rightarrow>
                 (case setDefaultParamsDocumentation resolve st1 (paths h1) h1 ''pathParams'' of
                    Inl e \<Rightarrow> Inl e
                  | Inr (st2, h2) \<Rightarrow>
                      (case setDefaultParamsDocumentation resolve st2 (querystrings h2) h2 ''queryParams'' of
                         Inl e \<Rightarrow> Inl e
                       | Inr (st3, h3) \<Rightarrow> Inr (st3, Some h3))))
          else if documentation httpEvent \<noteq> JNull \<and> \<not> private_flag httpEvent then
            Inr (st\<lparr>functionsMissingDocumentation := functionsMissingDocumentation st @ [functionName]\<rparr>,
                 Some httpEvent)
          else Inr (st, Some httpEvent))"

fun scan_events ::
  "resolver \<Rightarrow> (string \<Rightarrow> string) \<Rightarrow> string \<Rightarrow> plugin \<Rightarrow> event list \<Rightarrow> error + (plugin \<times> event list)" where
  "scan_events resolve unicodeUpperFirst functionName st [] = Inr (st, [])"
| "scan_events resolve unicodeUpperFirst functionName st (ev # evs) =
     (case scan_event resolve unicodeUpperFirst functionName st ev of
        Inl e \<Rightarrow> Inl e
      | Inr (st1, ev1) \<Rightarrow>
          (case scan_events resolve unicodeUpperFirst functionName st1 evs of
             Inl e \<Rightarrow> Inl e
           | Inr (st2, evs1) \<Rightarrow> Inr (st2, ev1 # evs1)))"

text \<open>
  \<^verbatim>\<open>this.functions\<close>: the function keys in the order of \<^verbatim>\<open>Object.keys\<close>, each with the
  \<^verbatim>\<open>events\<close> array of its declaration (empty when the declaration has none).
\<close>

type_synonym sls_functions = "(string \<times> event list) list"

text \<open>
  A key that lodash does not split into a path: it has no dot and no square bracket.
\<close>

definition plain_key :: "string \<Rightarrow> bool" where
  "plain_key k = list_all (\<lambda>c. c \<noteq> CHR ''.'' \<and> c \<noteq> CHR ''['' \<and> c \<noteq> CHR '']'') k"

text \<open>
  \<^verbatim>\<open>get(this.functions, `${functionName}.events`, [])\<close>, with lodash's \<^verbatim>\<open>get\<close>.
  \<^item> When the whole string \<^verbatim>\<open><functionName>.events\<close> is itself a key of the functions,
    lodash takes it as one key, the result is that function's declaration, which is
    not an array, and \<^verbatim>\<open>events.forEach\<close> throws.
  \<^item> Otherwise the string is split into a path. For a plain function name the path is
    the name followed by \<^verbatim>\<open>events\<close>, and the result is the events of that function.
  \<^item> For any other name the path has more parts, or other parts, and what lies
    along it is not determined by the events of the functions: that lookup is the
    parameter \<open>pathGet\<close>, which returns the events found, or \<open>None\<close> when what was
    found is not an array, so that \<^verbatim>\<open>events.forEach\<close> throws.
\<close>

type_synonym path_get = "sls_functions \<Rightarrow> string \<Rightarrow> event list option"

definition get_events :: "path_get \<Rightarrow> sls_functions \<Rightarrow> string \<Rightarrow> error + event list" where
  "get_events pathGet functions functionName =
     (if functionName @ ''.events'' \<in> set (map fst functions) then Inl TypeError
      else if plain_key functionName then
        Inr (case map_of functions functionName of None \<Rightarrow> [] | Some events \<Rightarrow> events)
      else (case pathGet functions functionName of
              None \<Rightarrow> Inl TypeError
            | Some events \<Rightarrow> Inr events))"

text \<open>
  The loop over \<^verbatim>\<open>Object.keys(this.functions)\<close>, on the keys still to visit. The result
  lists, for every key, the events that were visited under it, as the scan left them.
\<close>

fun scan_functions ::
  "resolver \<Rightarrow> (string \<Rightarrow> string) \<Rightarrow> path_get \<Rightarrow> sls_functions \<Rightarrow> plugin \<Rightarrow> string list \<Rightarrow>
   error + (plugin \<times> sls_functions)" where
  "scan_functions resolve unicodeUpperFirst pathGet functions st [] = Inr (st, [])"
| "scan_functions resolve unicodeUpperFirst pathGet functions st (functionName # names) =
     (case get_events pathGet functions functionName of
        Inl e \<Rightarrow> Inl e
      | Inr events \<Rightarrow>
          (case scan_events resolve unicodeUpperFirst functionName st events of
             Inl e \<Rightarrow> Inl e
           | Inr (st1, events1) \<Rightarrow>
               (case scan_functions resolve unicodeUpperFirst pathGet functions st1 names of
                  Inl e \<Rightarrow> Inl e
                | Inr (st2, fs1) \<Rightarrow> Inr (st2, (functionName, events1) # fs1))))"

definition assertAllFunctionsDocumented :: "plugin \<Rightarrow> error + unit" where
  "assertAllFunctionsDocumented st =
     (if functionsMissingDocumentation st \<noteq> []
      then Inl (MissingDocumentationError (functionsMissingDocumentation st))
      else Inr ())"

definition populateServerlessWithModels ::
  "resolver \<Rightarrow> (string \<Rightarrow> string) \<Rightarrow> path_get \<Rightarrow> plugin \<Rightarrow> sls_functions \<Rightarrow>
   error + (plugin \<times> sls_functions)" where
  "populateServerlessWithModels resolve unicodeUpperFirst pathGet st functions =
     (case scan_functions resolve unicodeUpperFirst pathGet functions st (map fst functions) of
        Inl e \<Rightarrow> Inl e
      | Inr (st1, fs1) \<Rightarrow>
          (case assertAllFunctionsDocumented st1 of
             Inl e \<Rightarrow> Inl e
           | Inr u \<Rightarrow> Inr (st1, fs1)))"

text \<open>The state the constructor leaves: nothing missing, no generator, no call made.\<close>

definition initial_plugin :: "string \<Rightarrow> jv list option \<Rightarrow> plugin" where
  "initial_plugin ns ms =
     \<lparr>apiNamespace = ns, models = ms, functionsMissingDocumentation = [],
      schemaGenerator = False, calls = []\<rparr>"

section \<open>Post-processing the OpenAPI document\<close>

text \<open>Strict-mode property access on an arbitrary value.\<close>

fun js_prop :: "jv \<Rightarrow> string \<Rightarrow> error + jv" where
  "js_prop JUndefined k = Inl TypeError"
| "js_prop JNull k = Inl TypeError"
| "js_prop (JObj kvs) k = Inr (obj_get kvs k)"
| "js_prop v k = Inr JUndefined"

fun js_assign :: "jv \<Rightarrow> string \<Rightarrow> jv \<Rightarrow> error + jv" where
  "js_assign (JObj kvs) k v = Inr (JObj (obj_set kvs k v))"
| "js_assign (JArr xs) k v = Inr (JArr xs)"
| "js_assign d k v = Inl TypeError"

fun map_err :: "('a \<Rightarrow> error + 'b) \<Rightarrow> 'a list \<Rightarrow> error + 'b list" where
  "map_err f [] = Inr []"
| "map_err f (x # xs) =
     (case f x of
        Inl e \<Rightarrow> Inl e
      | Inr y \<Rightarrow> (case map_err f xs of Inl e \<Rightarrow> Inl e | Inr ys \<Rightarrow> Inr (y # ys)))"

definition patchOpenApiVersion :: "jv \<Rightarrow> error + jv" where
  "patchOpenApiVersion openApi = js_assign openApi ''openapi'' (JStr ''3.1.0'')"

text \<open>\<^verbatim>\<open>m.tags = [tagName]\<close> on one member \<open>m\<close> of a path item, keeping the member's key.\<close>

definition tag_member :: "jv \<Rightarrow> string \<times> jv \<Rightarrow> error + (string \<times> jv)" where
  "tag_member tagName km =
     (case js_assign (snd km) ''tags'' (JArr [tagName]) of
        Inl e \<Rightarrow> Inl e
      | Inr m \<Rightarrow> Inr (fst km, m))"

text \<open>
  \<^verbatim>\<open>Object.values(path).forEach(...)\<close> on one path item: the values of an object, the
  elements of an array, the characters of a string, nothing for a number or a boolean.
\<close>

fun tag_path :: "jv \<Rightarrow> jv \<Rightarrow> error + jv" where
  "tag_path tagName JUndefined = Inl TypeError"
| "tag_path tagName JNull = Inl TypeError"
| "tag_path tagName (JObj kvs) =
     (case map_err (tag_member tagName) kvs of Inl e \<Rightarrow> Inl e | Inr kvs1 \<Rightarrow> Inr (JObj kvs1))"
| "tag_path tagName (JArr xs) =
     (case map_err (\<lambda>m. js_assign m ''tags'' (JArr [tagName])) xs of
        Inl e \<Rightarrow> Inl e | Inr xs1 \<Rightarrow> Inr (JArr xs1))"
| "tag_path tagName (JStr s) = (if s = [] then Inr (JStr s) else Inl TypeError)"
| "tag_path tagName v = Inr v"

definition tag_path_member :: "jv \<Rightarrow> string \<times> jv \<Rightarrow> error + (string \<times> jv)" where
  "tag_path_member tagName kp =
     (case tag_path tagName (snd kp) of Inl e \<Rightarrow> Inl e | Inr p \<Rightarrow> Inr (fst kp, p))"

text \<open>\<^verbatim>\<open>Object.values(openApi.paths).forEach(...)\<close>, on the value of \<^verbatim>\<open>openApi.paths\<close>.\<close>

fun tag_paths :: "jv \<Rightarrow> jv \<Rightarrow> error + jv" where
  "tag_paths tagName JUndefined = Inl TypeError"
| "tag_paths tagName JNull = Inl TypeError"
| "tag_paths tagName (JObj kvs) =
     (case map_err (tag_path_member tagName) kvs of Inl e \<Rightarrow> Inl e | Inr kvs1 \<Rightarrow> Inr (JObj kvs1))"
| "tag_paths tagName (JArr xs) =
     (case map_err (tag_path tagName) xs of Inl e \<Rightarrow> Inl e | Inr xs1 \<Rightarrow> Inr (JArr xs1))"
| "tag_paths tagName (JStr s) = (if s = [] then Inr (JStr s) else Inl TypeError)"
| "tag_paths tagName v = Inr v"

definition tagMethods :: "jv \<Rightarrow> error + jv" where
  "tagMethods openApi =
     (case js_prop openApi ''info'' of
        Inl e \<Rightarrow> Inl e
      | Inr info \<Rightarrow>
     (case js_prop info ''title'' of
        Inl e \<Rightarrow> Inl e
      | Inr tagName \<Rightarrow>
     (case js_prop info ''description'' of
        Inl e \<Rightarrow> Inl e
      | Inr description \<Rightarrow>
     (case js_assign openApi ''tags'' (JArr [JObj [(''name'', tagName), (''description'', description)]]) of
        Inl e \<Rightarrow> Inl e
      | Inr d1 \<Rightarrow>
     (case js_prop d1 ''paths'' of
        Inl e \<Rightarrow> Inl e
      | Inr ps \<Rightarrow>
     (case tag_paths tagName ps of
        Inl e \<Rightarrow> Inl e
      | Inr ps1 \<Rightarrow>
          (case d1 of JObj kvs \<Rightarrow> Inr (JObj (obj_set kvs ''paths'' ps1)) | _ \<Rightarrow> Inr d1)))))))"

text \<open>
  The file system is a map from paths to contents. \<^verbatim>\<open>yaml.load\<close> and \<^verbatim>\<open>yaml.dump\<close> are
  js-yaml's parser of a YAML text and its printer, taken as parameters (\<open>None\<close> when the
  parser throws). \<^verbatim>\<open>postProcessOpenApi\<close> passes \<open>outputFile\<close> itself to the parser.
\<close>

type_synonym filesystem = "string \<rightharpoonup> string"

definition postProcessOpenApi ::
  "(string \<Rightarrow> jv option) \<Rightarrow> (jv \<Rightarrow> string) \<Rightarrow> filesystem \<Rightarrow> string \<Rightarrow> error + filesystem" where
  "postProcessOpenApi yaml_load yaml_dump fs outputFile =
     (case yaml_load outputFile of
        None \<Rightarrow> Inl YAMLException
      | Some openApi \<Rightarrow>
          (case patchOpenApiVersion openApi of
             Inl e \<Rightarrow> Inl e
           | Inr d1 \<Rightarrow>
               (case tagMethods d1 of
                  Inl e \<Rightarrow> Inl e
                | Inr d2 \<Rightarrow> Inr (fs(outputFile \<mapsto> yaml_dump d2)))))"

section \<open>Notions used in the statements\<close>

text \<open>
  The condition under which the scan pushes the function's name: the event has an http
  member whose documentation is falsy, is not null, and the event is not private.
\<close>

definition missing_event :: "event \<Rightarrow> bool" where
  "missing_event ev =
     (case ev of
        None \<Rightarrow> False
      | Some httpEvent \<Rightarrow>
          \<not> truthy (documentation httpEvent) \<and> documentation httpEvent \<noteq> JNull \<and> \<not> private_flag httpEvent)"

text \<open>
  The function names the scan pushes, in order: for every key, one per such event among
  the events that the lookup returns for the key.
\<close>

fun offenders :: "path_get \<Rightarrow> sls_functions \<Rightarrow> string list \<Rightarrow> string list" where
  "offenders pathGet functions [] = []"
| "offenders pathGet functions (functionName # names) =
     (case get_events pathGet functions functionName of
        Inl e \<Rightarrow> []
      | Inr events \<Rightarrow> map (\<lambda>ev. functionName) (filter missing_event events)) @
     offenders pathGet functions names"

fun is_missing_error :: "error \<Rightarrow> bool" where
  "is_missing_error (MissingDocumentationError ns) = True"
| "is_missing_error e = False"

fun is_array :: "jv \<Rightarrow> bool" where
  "is_array (JArr xs) = True"
| "is_array v = False"

text \<open>The registry of the second state starts with the registry of the first.\<close>

definition grows :: "plugin \<Rightarrow> plugin \<Rightarrow> bool" where
  "grows st st' =
     (take (length (registry (models st))) (registry (models st')) = registry (models st))"

text \<open>
  How often \<^verbatim>\<open>tsj.createGenerator\<close> was called, and the link between that number and
  the cached generator.
\<close>

definition generator_calls :: "plugin \<Rightarrow> nat" where
  "generator_calls st = length (filter (\<lambda>c. c = CreateGenerator) (calls st))"

definition generator_once :: "plugin \<Rightarrow> bool" where
  "generator_once st = (generator_calls st = (if schemaGenerator st then 1 else 0))"

text \<open>
  The spec's PascalCase of a function name, in the usual sense of the word: the name is
  cut at every character that is neither a letter nor a digit, the first character of
  every part is upper-cased, and the parts are joined.
\<close>

definition is_alnum :: "char \<Rightarrow> bool" where
  "is_alnum c =
     (let n = (of_char c :: nat)
      in (48 \<le> n \<and> n \<le> 57) \<or> (65 \<le> n \<and> n \<le> 90) \<or> (97 \<le> n \<and> n \<le> 122))"

fun pascal_from :: "bool \<Rightarrow> string \<Rightarrow> string" where
  "pascal_from start [] = []"
| "pascal_from start (c # cs) =
     (if is_alnum c then (if start then upper_char c else c) # pascal_from False cs
      else pascal_from True cs)"

definition spec_PascalCase :: "string \<Rightarrow> string" where
  "spec_PascalCase functionName = pascal_from True functionName"

text \<open>The keys of an object.\<close>

definition keys :: "jobj \<Rightarrow> string list" where
  "keys kvs = map fst kvs"

text \<open>
  Well-formed paths of an OpenAPI document: every path item is an object, and so is every
  operation under it.
\<close>

fun is_object :: "jv \<Rightarrow> bool" where
  "is_object (JObj kvs) = True"
| "is_object v = False"

definition wf_path_item :: "jv \<Rightarrow> bool" where
  "wf_path_item p = (case p of JObj ops \<Rightarrow> list_all (\<lambda>km. is_object (snd km)) ops | _ \<Rightarrow> False)"

definition wf_paths :: "jobj \<Rightarrow> bool" where
  "wf_paths pths = list_all (\<lambda>kp. wf_path_item (snd kp)) pths"

text \<open>An operation, and a path item, after every operation received the one tag.\<close>

fun retag :: "jv \<Rightarrow> jv \<Rightarrow> jv" where
  "retag tagName (JObj kvs) = JObj (obj_set kvs ''tags'' (JArr [tagName]))"
| "retag tagName v = v"

fun retag_item :: "jv \<Rightarrow> jv \<Rightarrow> jv" where
  "retag_item tagName (JObj ops) = JObj (map (\<lambda>km. (fst km, retag tagName (snd km))) ops)"
| "retag_item tagName v = v"

text \<open>
  A list of documented parameters on which no round of the parameter defaults throws:
  no element is null or undefined, and an element that is an object has distinct keys
  (as every JavaScript object has).
\<close>

definition wf_param :: "jv \<Rightarrow> bool" where
  "wf_param p =
     (p \<noteq> JUndefined \<and> p \<noteq> JNull \<and> (case p of JObj entry \<Rightarrow> distinct (keys entry) | _ \<Rightarrow> True))"

text \<open>The \<^verbatim>\<open>name\<close> of every element of such a list, in order.\<close>

definition param_names :: "jv list \<Rightarrow> jv list" where
  "param_names ps = map (\<lambda>p. doc_get p ''name'') ps"

subsection \<open>Concrete inputs\<close>

text \<open>
  A schema generator that knows every type, one that knows none, and a small service.
  The function names of the examples are plain ASCII, so the two lodash parameters are
  never consulted on them: \<open>no_unicode\<close> returns its argument, and \<open>no_path\<close> is the
  lookup along a path whose first part is not a function key, which finds nothing.
\<close>

definition no_unicode :: "string \<Rightarrow> string" where
  "no_unicode s = s"

definition no_path :: path_get where
  "no_path functions functionName = Some []"

definition example_resolver :: resolver where
  "example_resolver modelName = Some (JObj [(''title'', JStr modelName)])"

definition failing_resolver :: resolver where
  "failing_resolver modelName = None"

definition example_event :: "string \<Rightarrow> jv \<Rightarrow> http_event" where
  "example_event m d =
     \<lparr>http_method = m, private_flag = False, documentation = d, paths = [], querystrings = []\<rparr>"

definition example_functions :: sls_functions where
  "example_functions =
     [(''getUser'', [Some (example_event ''GET'' (JObj [(''summary'', JStr ''Get a user'')]))]),
      (''listUsers'', [None, Some (example_event ''GET'' JUndefined)]),
      (''ping'', [Some (example_event ''GET'' JNull)]),
      (''removeUser'', [Some (example_event ''DELETE'' JUndefined)])]"

text \<open>A function whose key has a dot, with an undocumented http event.\<close>

definition dotted_functions :: sls_functions where
  "dotted_functions = [(''get.user'', [Some (example_event ''GET'' JUndefined)])]"

text \<open>A function with two GET events.\<close>

definition twice_get :: sls_functions where
  "twice_get =
     [(''getUser'', [Some (example_event ''GET'' (JObj [(''summary'', JStr ''by id'')])),
                     Some (example_event ''GET'' (JObj [(''summary'', JStr ''by name'')]))])]"

text \<open>A documented parameter whose schema names a model.\<close>

definition documented_id :: jobj where
  "documented_id = [(''name'', JStr ''id''), (''schema'', JStr ''Foo.Bar''), (''description'', JStr ''the id'')]"

text \<open>A generated document with one path and two operations, and its paths.\<close>

definition example_document :: jobj where
  "example_document =
     [(''openapi'', JStr ''3.0.0''),
      (''info'', JObj [(''title'', JStr ''Orders API''), (''description'', JStr ''Orders'')]),
      (''paths'', JObj [(''/orders'',
          JObj [(''get'', JObj [(''tags'', JArr [JStr ''old'']), (''summary'', JStr ''list'')]),
                (''post'', JObj [(''summary'', JStr ''create'')])])])]"

definition example_paths :: jobj where
  "example_paths =
     [(''/orders'',
          JObj [(''get'', JObj [(''tags'', JArr [JStr ''old'']), (''summary'', JStr ''list'')]),
                (''post'', JObj [(''summary'', JStr ''create'')])])]"

text \<open>
  What a YAML parser returns on a text that is one plain scalar, such as a file name;
  and a printer, for closed statements.
\<close>

definition plain_scalar_load :: "string \<Rightarrow> jv option" where
  "plain_scalar_load text = Some (JStr text)"

definition empty_dump :: "jv \<Rightarrow> string" where
  "empty_dump d = []"

section \<open>The scan and the completeness check\<close>

lemma generateSchema_missing:
  "generateSchema resolve st n = Inr (s, st') \<Longrightarrow>
   functionsMissingDocumentation st' = functionsMissingDocumentation st"
  by (auto simp: generateSchema_def Let_def split: option.splits if_splits)

lemma generateSchema_error:
  "generateSchema resolve st n = Inl e \<Longrightarrow> \<not> is_missing_error e"
  by (auto simp: generateSchema_def Let_def split: option.splits)

lemma setModel_missing:
  "setModel resolve st n = Inr st' \<Longrightarrow>
   functionsMissingDocumentation st' = functionsMissingDocumentation st"
  by (auto simp: setModel_def split: sum.splits dest: generateSchema_missing)

lemma setModel_error:
  "setModel resolve st n = Inl e \<Longrightarrow> \<not> is_missing_error e"
  by (auto simp: setModel_def split: sum.splits dest: generateSchema_error)

lemma setModels_get_missing:
  "setModels_get resolve st h fn = Inr (st', h') \<Longrightarrow>
   functionsMissingDocumentation st' = functionsMissingDocumentation st"
  by (auto simp: setModels_get_def Let_def split: sum.splits dest: setModel_missing)

lemma setModels_get_error:
  "setModels_get resolve st h fn = Inl e \<Longrightarrow> \<not> is_missing_error e"
  by (auto simp: setModels_get_def Let_def split: sum.splits dest: setModel_error)

lemma setModels_missing:
  "setModels resolve up st h fn = Inr (st', h') \<Longrightarrow>
   functionsMissingDocumentation st' = functionsMissingDocumentation st"
  by (auto simp: setModels_def Let_def split: sum.splits if_splits
           dest!: setModel_missing setModels_get_missing)

lemma setModels_error:
  "setModels resolve up st h fn = Inl e \<Longrightarrow> \<not> is_missing_error e"
  by (auto simp: setModels_def Let_def split: sum.splits if_splits
           dest!: setModel_error setModels_get_error)

lemma resolve_param_schema_missing:
  "resolve_param_schema resolve st ex = Inr (st', ex') \<Longrightarrow>
   functionsMissingDocumentation st' = functionsMissingDocumentation st"
  by (auto simp: resolve_param_schema_def split: jv.splits sum.splits dest: generateSchema_missing)

lemma resolve_param_schema_error:
  "resolve_param_schema resolve st ex = Inl e \<Longrightarrow> \<not> is_missing_error e"
  by (auto simp: resolve_param_schema_def split: jv.splits sum.splits dest: generateSchema_error)

lemma find_param_error:
  "find_param ps name = Inl e \<Longrightarrow> e = TypeError"
  by (induction ps name rule: find_param.induct) (auto split: if_splits sum.splits option.splits)

lemma param_step_missing:
  "param_step resolve key st doc name required = Inr (st', doc') \<Longrightarrow>
   functionsMissingDocumentation st' = functionsMissingDocumentation st"
  by (auto simp: param_step_def Let_def split: jv.splits sum.splits option.splits if_splits
           dest: resolve_param_schema_missing)

lemma param_step_error:
  "param_step resolve key st doc name required = Inl e \<Longrightarrow> \<not> is_missing_error e"
  by (auto simp: param_step_def Let_def split: jv.splits sum.splits option.splits if_splits
           dest: resolve_param_schema_error find_param_error)

lemma param_steps_missing:
  "param_steps resolve key st doc entries = Inr (st', doc') \<Longrightarrow>
   functionsMissingDocumentation st' = functionsMissingDocumentation st"
proof (induction entries arbitrary: st doc)
  case Nil
  then show ?case by simp
next
  case (Cons entry entries)
  obtain name required where entry: "entry = (name, required)" by (cases entry)
  with Cons.prems obtain st1 doc1 where
    step: "param_step resolve key st doc name required = Inr (st1, doc1)" and
    rest: "param_steps resolve key st1 doc1 entries = Inr (st', doc')"
    by (auto split: sum.splits)
  from Cons.IH [OF rest] param_step_missing [OF step] show ?case by simp
qed

lemma param_steps_error:
  "param_steps resolve key st doc entries = Inl e \<Longrightarrow> \<not> is_missing_error e"
proof (induction entries arbitrary: st doc)
  case Nil
  then show ?case by simp
next
  case (Cons entry entries)
  obtain name required where entry: "entry = (name, required)" by (cases entry)
  show ?case
  proof (cases "param_step resolve key st doc name required")
    case (Inl e')
    with Cons.prems entry have "e' = e" by simp
    with Inl show ?thesis by (simp add: param_step_error)
  next
    case (Inr r)
    with Cons.prems entry have "param_steps resolve key (fst r) (snd r) entries = Inl e"
      by (simp split: prod.splits)
    then show ?thesis by (rule Cons.IH)
  qed
qed

lemma setDefaultParamsDocumentation_missing:
  "setDefaultParamsDocumentation resolve st params h key = Inr (st', h') \<Longrightarrow>
   functionsMissingDocumentation st' = functionsMissingDocumentation st"
  by (auto simp: setDefaultParamsDocumentation_def split: sum.splits dest: param_steps_missing)

lemma setDefaultParamsDocumentation_error:
  "setDefaultParamsDocumentation resolve st params h key = Inl e \<Longrightarrow> \<not> is_missing_error e"
  by (auto simp: setDefaultParamsDocumentation_def split: sum.splits dest: param_steps_error)

lemma scan_event_missing:
  assumes "scan_event resolve up fn st ev = Inr (st', ev')"
  shows "functionsMissingDocumentation st' =
           functionsMissingDocumentation st @ (if missing_event ev then [fn] else [])"
proof (cases ev)
  case None
  with assms show ?thesis by (simp add: scan_event_def missing_event_def)
next
  case (Some h)
  show ?thesis
  proof (cases "truthy (documentation h)")
    case True
    with Some assms obtain st1 h1 st2 h2 h3 where
      a: "setModels resolve up st h fn = Inr (st1, h1)" and
      b: "setDefaultParamsDocumentation resolve st1 (paths h1) h1 ''pathParams'' = Inr (st2, h2)" and
      c: "setDefaultParamsDocumentation resolve st2 (querystrings h2) h2 ''queryParams'' = Inr (st', h3)"
      by (auto simp: scan_event_def split: sum.splits)
    from setModels_missing [OF a] setDefaultParamsDocumentation_missing [OF b]
      setDefaultParamsDocumentation_missing [OF c] True Some
    show ?thesis by (simp add: missing_event_def)
  next
    case False
    with Some assms show ?thesis
      by (auto simp: scan_event_def missing_event_def split: if_splits)
  qed
qed

lemma scan_event_error:
  "scan_event resolve up fn st ev = Inl e \<Longrightarrow> \<not> is_missing_error e"
  by (auto simp: scan_event_def split: option.splits if_splits sum.splits
           dest!: setModels_error setDefaultParamsDocumentation_error)

lemma scan_events_missing:
  "scan_events resolve up fn st evs = Inr (st', evs') \<Longrightarrow>
   functionsMissingDocumentation st' =
     functionsMissingDocumentation st @ map (\<lambda>ev. fn) (filter missing_event evs)"
proof (induction evs arbitrary: st evs')
  case Nil
  then show ?case by simp
next
  case (Cons ev evs)
  then obtain st1 ev1 evs1 where
    step: "scan_event resolve up fn st ev = Inr (st1, ev1)" and
    rest: "scan_events resolve up fn st1 evs = Inr (st', evs1)"
    by (auto split: sum.splits)
  from Cons.IH [OF rest] scan_event_missing [OF step] show ?case by simp
qed

lemma scan_events_error:
  "scan_events resolve up fn st evs = Inl e \<Longrightarrow> \<not> is_missing_error e"
proof (induction evs arbitrary: st)
  case Nil
  then show ?case by simp
next
  case (Cons ev evs)
  show ?case
  proof (cases "scan_event resolve up fn st ev")
    case (Inl e')
    with Cons.prems have "e' = e" by simp
    with Inl show ?thesis by (simp add: scan_event_error)
  next
    case (Inr r)
    with Cons.prems have "scan_events resolve up fn (fst r) evs = Inl e"
      by (auto split: prod.splits sum.splits)
    then show ?thesis by (rule Cons.IH)
  qed
qed

lemma scan_functions_missing:
  "scan_functions resolve up pathGet functions st names = Inr (st', fs') \<Longrightarrow>
   functionsMissingDocumentation st' =
     functionsMissingDocumentation st @ offenders pathGet functions names"
proof (induction names arbitrary: st fs')
  case Nil
  then show ?case by simp
next
  case (Cons fn names)
  then obtain evs st1 evs1 fs1 where
    look: "get_events pathGet functions fn = Inr evs" and
    step: "scan_events resolve up fn st evs = Inr (st1, evs1)" and
    rest: "scan_functions resolve up pathGet functions st1 names = Inr (st', fs1)"
    by (auto split: sum.splits)
  from Cons.IH [OF rest] scan_events_missing [OF step] look show ?case by simp
qed

lemma get_events_error:
  "get_events pathGet functions fn = Inl e \<Longrightarrow> e = TypeError"
  by (auto simp: get_events_def split: if_splits option.splits)

lemma scan_functions_error:
  "scan_functions resolve up pathGet functions st names = Inl e \<Longrightarrow> \<not> is_missing_error e"
proof (induction names arbitrary: st)
  case Nil
  then show ?case by simp
next
  case (Cons fn names)
  show ?case
  proof (cases "get_events pathGet functions fn")
    case (Inl e')
    with Cons.prems have "e' = e" by simp
    with Inl show ?thesis by (auto dest: get_events_error)
  next
    case look: (Inr evs)
    show ?thesis
    proof (cases "scan_events resolve up fn st evs")
      case (Inl e')
      with Cons.prems look have "e' = e" by simp
      with Inl show ?thesis by (simp add: scan_events_error)
    next
      case (Inr r)
      with Cons.prems look have "scan_functions resolve up pathGet functions (fst r) names = Inl e"
        by (auto split: prod.splits sum.splits)
      then show ?thesis by (rule Cons.IH)
    qed
  qed
qed

lemma set_offenders:
  "set (offenders pathGet functions names) =
     {fn. fn \<in> set names \<and>
          (\<exists>evs ev. get_events pathGet functions fn = Inr evs \<and> ev \<in> set evs \<and> missing_event ev)}"
  by (induction names) (auto split: sum.splits dest: sym)

lemma get_events_plain:
  assumes "distinct (map fst functions)" and "(fn, evs) \<in> set functions"
    and "plain_key fn" and "fn @ ''.events'' \<notin> set (map fst functions)"
  shows "get_events pathGet functions fn = Inr evs"
  using assms by (simp add: get_events_def)

text \<open>
  Claim C1, as amended. Let the lookup \<^verbatim>\<open>get(functions, '<name>.events', [])\<close> return,
  for some function key, events among which is an http event whose documentation key is
  absent and which is not private. If the scan of all keys and events goes through, the
  run fails with \<open>MissingDocumentationError\<close>, whose list is the complete list of
  offending function names (never a part of it): the names already recorded, then, key
  by key, one name per offending event among the events the lookup returns for the key.
  If instead the scan stops (a schema cannot be generated, or a type error), the run
  fails with that error, which is never a \<open>MissingDocumentationError\<close>. For a plain
  function key, when no key \<^verbatim>\<open><name>.events\<close> exists, the lookup returns the function's
  own events; for a key with a dot or a bracket it need not.
\<close>

theorem missing_documentation_lists_all:
  assumes "\<exists>fn evs h. fn \<in> set (map fst functions) \<and> get_events pathGet functions fn = Inr evs \<and>
             Some h \<in> set evs \<and> documentation h = JUndefined \<and> \<not> private_flag h"
  shows "(\<forall>st1 fs1.
            scan_functions resolve up pathGet functions st (map fst functions) = Inr (st1, fs1) \<longrightarrow>
            populateServerlessWithModels resolve up pathGet st functions =
              Inl (MissingDocumentationError
                     (functionsMissingDocumentation st @ offenders pathGet functions (map fst functions)))) \<and>
         (\<forall>e. scan_functions resolve up pathGet functions st (map fst functions) = Inl e \<longrightarrow>
            populateServerlessWithModels resolve up pathGet st functions = Inl e \<and> \<not> is_missing_error e) \<and>
         set (offenders pathGet functions (map fst functions)) =
           {fn. fn \<in> set (map fst functions) \<and>
                (\<exists>evs ev. get_events pathGet functions fn = Inr evs \<and> ev \<in> set evs \<and> missing_event ev)} \<and>
         (\<forall>fn evs h. fn \<in> set (map fst functions) \<and> get_events pathGet functions fn = Inr evs \<and>
            Some h \<in> set evs \<and> documentation h = JUndefined \<and> \<not> private_flag h \<longrightarrow>
            fn \<in> set (offenders pathGet functions (map fst functions))) \<and>
         (\<forall>fn evs. distinct (map fst functions) \<and> (fn, evs) \<in> set functions \<and> plain_key fn \<and>
            fn @ ''.events'' \<notin> set (map fst functions) \<longrightarrow>
            get_events pathGet functions fn = Inr evs)"
proof -
  let ?names = "map fst functions"
  have absent: "missing_event (Some h)" if "documentation h = JUndefined" "\<not> private_flag h" for h
    using that by (simp add: missing_event_def)
  have names: "set (offenders pathGet functions ?names) =
      {fn. fn \<in> set ?names \<and>
           (\<exists>evs ev. get_events pathGet functions fn = Inr evs \<and> ev \<in> set evs \<and> missing_event ev)}"
    by (rule set_offenders)
  have all: "\<forall>fn evs h. fn \<in> set ?names \<and> get_events pathGet functions fn = Inr evs \<and>
            Some h \<in> set evs \<and> documentation h = JUndefined \<and> \<not> private_flag h \<longrightarrow>
            fn \<in> set (offenders pathGet functions ?names)"
    unfolding names using absent by blast
  from assms all have nonempty: "offenders pathGet functions ?names \<noteq> []" by fastforce
  have ok: "populateServerlessWithModels resolve up pathGet st functions =
              Inl (MissingDocumentationError
                     (functionsMissingDocumentation st @ offenders pathGet functions ?names))"
    if "scan_functions resolve up pathGet functions st ?names = Inr (st1, fs1)" for st1 fs1
    using that nonempty scan_functions_missing [OF that]
    by (simp add: populateServerlessWithModels_def assertAllFunctionsDocumented_def)
  have bad: "populateServerlessWithModels resolve up pathGet st functions = Inl e \<and> \<not> is_missing_error e"
    if "scan_functions resolve up pathGet functions st ?names = Inl e" for e
    using that scan_functions_error [OF that] by (simp add: populateServerlessWithModels_def)
  have own: "\<forall>fn evs. distinct ?names \<and> (fn, evs) \<in> set functions \<and> plain_key fn \<and>
            fn @ ''.events'' \<notin> set ?names \<longrightarrow> get_events pathGet functions fn = Inr evs"
    by (simp add: get_events_plain)
  show ?thesis
  proof (intro conjI)
    show "\<forall>st1 fs1. scan_functions resolve up pathGet functions st ?names = Inr (st1, fs1) \<longrightarrow>
            populateServerlessWithModels resolve up pathGet st functions =
              Inl (MissingDocumentationError
                     (functionsMissingDocumentation st @ offenders pathGet functions ?names))"
      using ok by blast
    show "\<forall>e. scan_functions resolve up pathGet functions st ?names = Inl e \<longrightarrow>
            populateServerlessWithModels resolve up pathGet st functions = Inl e \<and> \<not> is_missing_error e"
      using bad by blast
  qed (rule names all own)+
qed

text \<open>The theorem of C1 on the example service, where two functions are undocumented.\<close>

theorem missing_documentation_lists_all_witness:
  "populateServerlessWithModels example_resolver no_unicode no_path (initial_plugin ''Api'' None)
     example_functions =
     Inl (MissingDocumentationError [''listUsers'', ''removeUser''])"
proof -
  let ?scan = "scan_functions example_resolver no_unicode no_path example_functions
                 (initial_plugin ''Api'' None) (map fst example_functions)"
  have "''listUsers'' \<in> set (map fst example_functions) \<and>
        get_events no_path example_functions ''listUsers'' = Inr [None, Some (example_event ''GET'' JUndefined)] \<and>
        Some (example_event ''GET'' JUndefined) \<in> set [None, Some (example_event ''GET'' JUndefined)] \<and>
        documentation (example_event ''GET'' JUndefined) = JUndefined \<and>
        \<not> private_flag (example_event ''GET'' JUndefined)"
    by (simp add: example_functions_def example_event_def get_events_def plain_key_def)
  then have hyp: "\<exists>fn evs h. fn \<in> set (map fst example_functions) \<and>
             get_events no_path example_functions fn = Inr evs \<and>
             Some h \<in> set evs \<and> documentation h = JUndefined \<and> \<not> private_flag h"
    by blast
  have "case ?scan of Inl e \<Rightarrow> False | Inr r \<Rightarrow> True"
    by code_simp
  then obtain st1 fs1 where scan: "?scan = Inr (st1, fs1)"
    by (cases ?scan) auto
  have off: "offenders no_path example_functions (map fst example_functions) = [''listUsers'', ''removeUser'']"
    by code_simp
  from missing_documentation_lists_all [OF hyp, of example_resolver no_unicode "initial_plugin ''Api'' None",
      THEN conjunct1, THEN spec, THEN spec, THEN mp, OF scan] off
  show ?thesis by (simp add: initial_plugin_def)
qed

text \<open>
  C1 as stated fails when no schema can be generated for the documented function that
  is scanned first: two functions are offending, and the run stops with the schema error.
\<close>

theorem missing_documentation_counterexample:
  "offenders no_path example_functions (map fst example_functions) = [''listUsers'', ''removeUser''] \<and>
   populateServerlessWithModels failing_resolver no_unicode no_path (initial_plugin ''Api'' None)
     example_functions =
     Inl (SchemaResolutionError ''Api.GetUser.Response'')"
  by code_simp

text \<open>
  A function whose key has a dot is not scanned under its own events. When the first
  part of the key is not a function key, the lookup finds nothing, and the run succeeds
  although the function has an undocumented http event.
\<close>

lemma dotted_key_not_scanned:
  "populateServerlessWithModels example_resolver no_unicode no_path (initial_plugin ''Api'' None)
     dotted_functions =
     Inr (initial_plugin ''Api'' None, [(''get.user'', [])])"
  by code_simp

text \<open>
  Claim C5, as amended. An http event whose documentation is null, or which is private
  and has no truthy documentation, is left alone: the scan of the event changes neither
  the plugin state (no model, no schema call, no name recorded) nor the event, and a
  run over that event alone, under a plain function key, succeeds.
\<close>

theorem undocumented_on_purpose:
  assumes "documentation h = JNull \<or> (private_flag h \<and> \<not> truthy (documentation h))"
  shows "scan_event resolve up functionName st (Some h) = Inr (st, Some h) \<and>
         (plain_key functionName \<longrightarrow>
            populateServerlessWithModels resolve up pathGet (st\<lparr>functionsMissingDocumentation := []\<rparr>)
                [(functionName, [Some h])] =
              Inr (st\<lparr>functionsMissingDocumentation := []\<rparr>, [(functionName, [Some h])]))"
proof -
  have "scan_event resolve up functionName s (Some h) = Inr (s, Some h)" for s
    using assms by (auto simp: scan_event_def)
  then show ?thesis
    by (simp add: populateServerlessWithModels_def assertAllFunctionsDocumented_def get_events_def)
qed

text \<open>The theorem of C5 on an event with null documentation and on a private one.\<close>

theorem undocumented_on_purpose_witness:
  "scan_event example_resolver no_unicode ''ping'' (initial_plugin ''Api'' None)
       (Some (example_event ''GET'' JNull)) =
     Inr (initial_plugin ''Api'' None, Some (example_event ''GET'' JNull)) \<and>
   scan_event example_resolver no_unicode ''ping'' (initial_plugin ''Api'' None)
       (Some ((example_event ''GET'' (JBool False))\<lparr>private_flag := True\<rparr>)) =
     Inr (initial_plugin ''Api'' None, Some ((example_event ''GET'' (JBool False))\<lparr>private_flag := True\<rparr>)) \<and>
   populateServerlessWithModels example_resolver no_unicode no_path (initial_plugin ''Api'' None)
       [(''ping'', [Some (example_event ''GET'' JNull)])] =
     Inr (initial_plugin ''Api'' None, [(''ping'', [Some (example_event ''GET'' JNull)])])"
proof -
  have h1: "documentation (example_event ''GET'' JNull) = JNull \<or>
            (private_flag (example_event ''GET'' JNull) \<and> \<not> truthy (documentation (example_event ''GET'' JNull)))"
    by (simp add: example_event_def)
  have h2: "documentation ((example_event ''GET'' (JBool False))\<lparr>private_flag := True\<rparr>) = JNull \<or>
            (private_flag ((example_event ''GET'' (JBool False))\<lparr>private_flag := True\<rparr>) \<and>
             \<not> truthy (documentation ((example_event ''GET'' (JBool False))\<lparr>private_flag := True\<rparr>)))"
    by (simp add: example_event_def)
  have p: "plain_key ''ping''"
    by (simp add: plain_key_def)
  have i: "(initial_plugin ''Api'' None)\<lparr>functionsMissingDocumentation := []\<rparr> = initial_plugin ''Api'' None"
    by (simp add: initial_plugin_def)
  from undocumented_on_purpose [OF h1, THEN conjunct1] undocumented_on_purpose [OF h2, THEN conjunct1]
    undocumented_on_purpose [OF h1, of example_resolver no_unicode "''ping''" "initial_plugin ''Api'' None" no_path,
      THEN conjunct2, THEN mp, OF p] i
  show ?thesis by simp
qed

text \<open>
  C5 as stated fails for a private event that carries documentation: the first test of
  the scan is on the documentation, so a model is registered for it.
\<close>

theorem private_documented_counterexample:
  "private_flag ((example_event ''GET'' (JObj [(''summary'', JStr ''Get a user'')]))\<lparr>private_flag := True\<rparr>) \<and>
   scan_event example_resolver no_unicode ''getUser'' (initial_plugin ''Api'' (Some []))
     (Some ((example_event ''GET'' (JObj [(''summary'', JStr ''Get a user'')]))\<lparr>private_flag := True\<rparr>)) =
   Inr (\<lparr>apiNamespace = ''Api'',
         models = Some [model_entry ''Api.GetUser.Response'' (JObj [(''title'', JStr ''Api.GetUser.Response'')])],
         functionsMissingDocumentation = [], schemaGenerator = True,
         calls = [CreateGenerator, CreateSchema ''Api.GetUser.Response'']\<rparr>,
        Some \<lparr>http_method = ''GET'', private_flag = True,
          documentation = JObj [(''summary'', JStr ''Get a user''),
                                (''methodResponses'', response_200 ''Api.GetUser.Response'')],
          paths = [], querystrings = []\<rparr>)"
  by code_simp

text \<open>
  Claim C10. A non-private http event whose documentation is falsy and not null (false,
  0, the empty string, undefined) is scanned exactly like one without the key: the
  function name is recorded and nothing else changes, and every run in which the lookup
  of the function's events returns the event fails. With null in its place nothing is recorded.
\<close>

theorem falsy_documentation_is_missing:
  assumes "\<not> truthy (documentation h)" and "documentation h \<noteq> JNull" and "\<not> private_flag h"
  shows "scan_event resolve up functionName st (Some h) =
           Inr (st\<lparr>functionsMissingDocumentation := functionsMissingDocumentation st @ [functionName]\<rparr>, Some h) \<and>
         scan_event resolve up functionName st (Some (h\<lparr>documentation := JUndefined\<rparr>)) =
           Inr (st\<lparr>functionsMissingDocumentation := functionsMissingDocumentation st @ [functionName]\<rparr>,
                Some (h\<lparr>documentation := JUndefined\<rparr>)) \<and>
         scan_event resolve up functionName st (Some (h\<lparr>documentation := JNull\<rparr>)) =
           Inr (st, Some (h\<lparr>documentation := JNull\<rparr>)) \<and>
         (\<forall>functions evs.
            functionName \<in> set (map fst functions) \<and>
            get_events pathGet functions functionName = Inr evs \<and> Some h \<in> set evs \<longrightarrow>
            (\<exists>e. populateServerlessWithModels resolve up pathGet st functions = Inl e))"
proof -
  have miss: "missing_event (Some h)"
    using assms by (simp add: missing_event_def)
  have fails: "\<exists>e. populateServerlessWithModels resolve up pathGet st fs = Inl e"
    if "functionName \<in> set (map fst fs)"
      "get_events pathGet fs functionName = Inr evs" "Some h \<in> set evs" for fs evs
  proof (cases "scan_functions resolve up pathGet fs st (map fst fs)")
    case (Inl e)
    then show ?thesis by (simp add: populateServerlessWithModels_def)
  next
    case (Inr r)
    obtain st1 fs1 where r: "r = (st1, fs1)" by (cases r)
    from that miss have "functionName \<in> set (offenders pathGet fs (map fst fs))"
      unfolding set_offenders by blast
    then have "offenders pathGet fs (map fst fs) \<noteq> []" by auto
    with scan_functions_missing [of resolve up pathGet fs st "map fst fs" st1 fs1] Inr r
    show ?thesis
      by (simp add: populateServerlessWithModels_def assertAllFunctionsDocumented_def)
  qed
  from assms fails show ?thesis
    by (auto simp: scan_event_def)
qed

text \<open>The theorem of C10 at \<^verbatim>\<open>documentation: false\<close> and \<^verbatim>\<open>documentation: ''\<close>.\<close>

theorem falsy_documentation_is_missing_witness:
  "scan_event example_resolver no_unicode ''listUsers'' (initial_plugin ''Api'' None)
       (Some (example_event ''GET'' (JBool False))) =
     Inr ((initial_plugin ''Api'' None)\<lparr>functionsMissingDocumentation := [''listUsers'']\<rparr>,
          Some (example_event ''GET'' (JBool False))) \<and>
   scan_event example_resolver no_unicode ''listUsers'' (initial_plugin ''Api'' None)
       (Some (example_event ''GET'' (JStr []))) =
     Inr ((initial_plugin ''Api'' None)\<lparr>functionsMissingDocumentation := [''listUsers'']\<rparr>,
          Some (example_event ''GET'' (JStr [])))"
proof -
  have a: "\<not> truthy (documentation (example_event ''GET'' (JBool False)))"
    "documentation (example_event ''GET'' (JBool False)) \<noteq> JNull"
    "\<not> private_flag (example_event ''GET'' (JBool False))"
    by (simp_all add: example_event_def)
  have b: "\<not> truthy (documentation (example_event ''GET'' (JStr [])))"
    "documentation (example_event ''GET'' (JStr [])) \<noteq> JNull"
    "\<not> private_flag (example_event ''GET'' (JStr []))"
    by (simp_all add: example_event_def)
  from falsy_documentation_is_missing [OF a, of example_resolver no_unicode "''listUsers''"
          "initial_plugin ''Api'' None" no_path]
       falsy_documentation_is_missing [OF b, of example_resolver no_unicode "''listUsers''"
          "initial_plugin ''Api'' None" no_path]
  show ?thesis by (simp add: initial_plugin_def)
qed

section \<open>Model synthesis and the registry\<close>

lemma obj_get_obj_set: "obj_get (obj_set kvs k v) k' = (if k' = k then v else obj_get kvs k')"
  by (induction kvs) auto

lemma doc_get_lodash_set:
  "\<not> is_array d \<Longrightarrow> doc_get (lodash_set d k v) k' = (if k' = k then v else doc_get d k')"
  by (cases d) (simp_all add: obj_get_obj_set)

lemma is_array_lodash_set: "is_array (lodash_set d k v) = is_array d"
  by (cases d) simp_all

lemma setModel_Some:
  "resolve n = Some s \<Longrightarrow>
   setModel resolve st n =
     Inr (st\<lparr>schemaGenerator := True,
             calls := calls st @ (if schemaGenerator st then [] else [CreateGenerator]) @ [CreateSchema n],
             models := Some (registry (models st) @ [model_entry n s])\<rparr>)"
  by (simp add: setModel_def generateSchema_def)

lemma setModels_get_Some:
  "resolve (p @ ''.Response'') = Some s \<Longrightarrow>
   setModels_get resolve st h p =
     Inr (st\<lparr>schemaGenerator := True,
             calls := calls st @ (if schemaGenerator st then [] else [CreateGenerator]) @ [CreateSchema (p @ ''.Response'')],
             models := Some (registry (models st) @ [model_entry (p @ ''.Response'') s])\<rparr>,
          h\<lparr>documentation := lodash_set (documentation h) ''methodResponses'' (response_200 (p @ ''.Response''))\<rparr>)"
  by (simp add: setModels_get_def Let_def setModel_Some)

text \<open>
  Claim C3. For an http event whose method is DELETE in any letter case, \<open>setModels\<close>
  returns the plugin state unchanged (no model is registered, no schema is generated) and
  leaves \<open>documentation.methodResponses\<close> equal to the one entry
  \<open>{statusCode: 204, responseModels: {}}\<close>, whatever was there before; every other key of
  the documentation keeps its value. (Documentation that is an array is left out: the key
  would be a named property of the array.)
\<close>

theorem setModels_delete:
  assumes "toLowerCase (http_method h) = ''delete''" and "\<not> is_array (documentation h)"
  shows "\<exists>h'. setModels resolve up st h functionName = Inr (st, h') \<and>
           doc_get (documentation h') ''methodResponses'' =
             JArr [JObj [(''statusCode'', JNum 204), (''responseModels'', JObj [])]] \<and>
           (\<forall>k. k \<noteq> ''methodResponses'' \<longrightarrow> doc_get (documentation h') k = doc_get (documentation h) k)"
  using assms by (simp add: setModels_def doc_get_lodash_set response_204_def)

text \<open>The theorem of C3 on an event that already documents a 500 response.\<close>

theorem setModels_delete_witness:
  "\<exists>h'. setModels example_resolver no_unicode (initial_plugin ''Api'' (Some []))
            (example_event ''Delete'' (JObj [(''methodResponses'', JArr [JObj [(''statusCode'', JNum 500)]])]))
            ''removeUser'' = Inr (initial_plugin ''Api'' (Some []), h') \<and>
         doc_get (documentation h') ''methodResponses'' =
           JArr [JObj [(''statusCode'', JNum 204), (''responseModels'', JObj [])]]"
proof -
  have a: "toLowerCase (http_method (example_event ''Delete''
             (JObj [(''methodResponses'', JArr [JObj [(''statusCode'', JNum 500)]])]))) = ''delete''"
    by code_simp
  have b: "\<not> is_array (documentation (example_event ''Delete''
             (JObj [(''methodResponses'', JArr [JObj [(''statusCode'', JNum 500)]])])))"
    by (simp add: example_event_def)
  from setModels_delete [OF a b, of example_resolver no_unicode "initial_plugin ''Api'' (Some [])" "''removeUser''"]
  show ?thesis by blast
qed

text \<open>
  Claim C2, as amended. The prefix of the model names is
  \<open><apiNamespace>.<upperFirst(functionName)>\<close>, with lodash's \<open>upperFirst\<close>: on an ASCII
  name the first character is upper-cased and the rest is kept as it is, so no separator
  is removed and no later word is capitalised. Let the schema of \<open><prefix>.Response\<close> be
  generated. For POST, PUT or PATCH in any letter case, with the schema of
  \<open><prefix>.Request.Body\<close> generated too, \<open>setModels\<close> appends the request model and
  then the response model to the registry, sets \<open>requestModels\<close>, \<open>requestBody\<close> and the
  one 200 entry of \<open>methodResponses\<close>, and changes no other key. For GET it appends the
  response model only, sets \<open>methodResponses\<close> only, and so registers no request model.
\<close>

theorem setModels_write_and_get:
  assumes "\<not> is_array (documentation h)"
    and "requestModelName = apiNamespace st @ ''.'' @ upperFirst up functionName @ ''.Request.Body''"
    and "responseModelName = apiNamespace st @ ''.'' @ upperFirst up functionName @ ''.Response''"
    and "resolve responseModelName = Some responseSchema"
  shows "(toLowerCase (http_method h) \<in> {''post'', ''put'', ''patch''} \<and>
          resolve requestModelName = Some requestSchema \<longrightarrow>
          (\<exists>st' h'. setModels resolve up st h functionName = Inr (st', h') \<and>
             registry (models st') = registry (models st) @
               [JObj [(''name'', JStr requestModelName), (''contentType'', JStr ''application/json''),
                      (''schema'', requestSchema)],
                JObj [(''name'', JStr responseModelName), (''contentType'', JStr ''application/json''),
                      (''schema'', responseSchema)]] \<and>
             doc_get (documentation h') ''requestModels'' = JObj [(''application/json'', JStr requestModelName)] \<and>
             doc_get (documentation h') ''requestBody'' = JObj [(''description'', JStr [])] \<and>
             doc_get (documentation h') ''methodResponses'' =
               JArr [JObj [(''statusCode'', JNum 200),
                           (''responseBody'', JObj [(''description'', JStr [])]),
                           (''responseModels'', JObj [(''application/json'', JStr responseModelName)])]] \<and>
             (\<forall>k. k \<notin> {''requestModels'', ''requestBody'', ''methodResponses''} \<longrightarrow>
                doc_get (documentation h') k = doc_get (documentation h) k))) \<and>
         (toLowerCase (http_method h) = ''get'' \<longrightarrow>
          (\<exists>st' h'. setModels resolve up st h functionName = Inr (st', h') \<and>
             registry (models st') = registry (models st) @
               [JObj [(''name'', JStr responseModelName), (''contentType'', JStr ''application/json''),
                      (''schema'', responseSchema)]] \<and>
             doc_get (documentation h') ''methodResponses'' =
               JArr [JObj [(''statusCode'', JNum 200),
                           (''responseBody'', JObj [(''description'', JStr [])]),
                           (''responseModels'', JObj [(''application/json'', JStr responseModelName)])]] \<and>
             (\<forall>k. k \<noteq> ''methodResponses'' \<longrightarrow>
                doc_get (documentation h') k = doc_get (documentation h) k))) \<and>
         (is_ascii functionName \<longrightarrow>
            upperFirst up functionName = (case functionName of [] \<Rightarrow> [] | c # cs \<Rightarrow> upper_char c # cs))"
proof (intro conjI impI)
  assume w: "toLowerCase (http_method h) \<in> {''post'', ''put'', ''patch''} \<and>
             resolve requestModelName = Some requestSchema"
  let ?p = "apiNamespace st @ ''.'' @ upperFirst up functionName"
  from w assms have rq: "resolve (?p @ ''.Request.Body'') = Some requestSchema" by simp
  let ?st1 = "st\<lparr>schemaGenerator := True,
             calls := calls st @ (if schemaGenerator st then [] else [CreateGenerator]) @ [CreateSchema (?p @ ''.Request.Body'')],
             models := Some (registry (models st) @ [model_entry (?p @ ''.Request.Body'') requestSchema])\<rparr>"
  from assms have rs: "resolve (?p @ ''.Response'') = Some responseSchema" by simp
  from w have m: "toLowerCase (http_method h) \<noteq> ''delete''" by auto
  have "setModels resolve up st h functionName =
          setModels_get resolve ?st1
            (h\<lparr>documentation := lodash_set (lodash_set (documentation h) ''requestModels''
                   (JObj [(''application/json'', JStr (?p @ ''.Request.Body''))]))
                   ''requestBody'' (JObj [(''description'', JStr [])])\<rparr>) ?p"
    using w m setModel_Some [of resolve "?p @ ''.Request.Body''" requestSchema st, OF rq]
    by (auto simp: setModels_def Let_def)
  then show "\<exists>st' h'. setModels resolve up st h functionName = Inr (st', h') \<and>
             registry (models st') = registry (models st) @
               [JObj [(''name'', JStr requestModelName), (''contentType'', JStr ''application/json''),
                      (''schema'', requestSchema)],
                JObj [(''name'', JStr responseModelName), (''contentType'', JStr ''application/json''),
                      (''schema'', responseSchema)]] \<and>
             doc_get (documentation h') ''requestModels'' = JObj [(''application/json'', JStr requestModelName)] \<and>
             doc_get (documentation h') ''requestBody'' = JObj [(''description'', JStr [])] \<and>
             doc_get (documentation h') ''methodResponses'' =
               JArr [JObj [(''statusCode'', JNum 200),
                           (''responseBody'', JObj [(''description'', JStr [])]),
                           (''responseModels'', JObj [(''application/json'', JStr responseModelName)])]] \<and>
             (\<forall>k. k \<notin> {''requestModels'', ''requestBody'', ''methodResponses''} \<longrightarrow>
                doc_get (documentation h') k = doc_get (documentation h) k)"
    using assms(1,2,3)
    using setModels_get_Some [of resolve ?p responseSchema, OF rs]
    by (simp add: doc_get_lodash_set is_array_lodash_set model_entry_def response_200_def)
next
  assume g: "toLowerCase (http_method h) = ''get''"
  let ?p = "apiNamespace st @ ''.'' @ upperFirst up functionName"
  from assms have rs: "resolve (?p @ ''.Response'') = Some responseSchema" by simp
  have "setModels resolve up st h functionName = setModels_get resolve st h ?p"
    using g by (simp add: setModels_def Let_def)
  then show "\<exists>st' h'. setModels resolve up st h functionName = Inr (st', h') \<and>
             registry (models st') = registry (models st) @
               [JObj [(''name'', JStr responseModelName), (''contentType'', JStr ''application/json''),
                      (''schema'', responseSchema)]] \<and>
             doc_get (documentation h') ''methodResponses'' =
               JArr [JObj [(''statusCode'', JNum 200),
                           (''responseBody'', JObj [(''description'', JStr [])]),
                           (''responseModels'', JObj [(''application/json'', JStr responseModelName)])]] \<and>
             (\<forall>k. k \<noteq> ''methodResponses'' \<longrightarrow>
                doc_get (documentation h') k = doc_get (documentation h) k)"
    using assms(1,3)
    using setModels_get_Some [of resolve ?p responseSchema, OF rs]
    by (simp add: doc_get_lodash_set model_entry_def response_200_def)
next
  assume "is_ascii functionName"
  then show "upperFirst up functionName = (case functionName of [] \<Rightarrow> [] | c # cs \<Rightarrow> upper_char c # cs)"
    by (simp add: upperFirst_def)
qed

text \<open>The theorem of C2 on a POST event of the function \<open>createUser\<close>.\<close>

theorem setModels_write_and_get_witness:
  "\<exists>st' h'. setModels example_resolver no_unicode (initial_plugin ''Api'' (Some []))
               (example_event ''POST'' (JObj [(''summary'', JStr ''Create a user'')])) ''createUser'' =
             Inr (st', h') \<and>
           registry (models st') =
             [JObj [(''name'', JStr ''Api.CreateUser.Request.Body''), (''contentType'', JStr ''application/json''),
                    (''schema'', JObj [(''title'', JStr ''Api.CreateUser.Request.Body'')])],
              JObj [(''name'', JStr ''Api.CreateUser.Response''), (''contentType'', JStr ''application/json''),
                    (''schema'', JObj [(''title'', JStr ''Api.CreateUser.Response'')])]] \<and>
           doc_get (documentation h') ''requestModels'' =
             JObj [(''application/json'', JStr ''Api.CreateUser.Request.Body'')]"
proof -
  let ?h = "example_event ''POST'' (JObj [(''summary'', JStr ''Create a user'')])"
  let ?st = "initial_plugin ''Api'' (Some [])"
  have a: "\<not> is_array (documentation ?h)"
    by (simp add: example_event_def)
  have b: "''Api.CreateUser.Request.Body'' = apiNamespace ?st @ ''.'' @ upperFirst no_unicode ''createUser'' @ ''.Request.Body''"
    by code_simp
  have c: "''Api.CreateUser.Response'' = apiNamespace ?st @ ''.'' @ upperFirst no_unicode ''createUser'' @ ''.Response''"
    by code_simp
  have d: "example_resolver ''Api.CreateUser.Response'' = Some (JObj [(''title'', JStr ''Api.CreateUser.Response'')])"
    by (simp add: example_resolver_def)
  have e: "toLowerCase (http_method ?h) \<in> {''post'', ''put'', ''patch''} \<and>
           example_resolver ''Api.CreateUser.Request.Body'' =
             Some (JObj [(''title'', JStr ''Api.CreateUser.Request.Body'')])"
    by code_simp
  have f: "registry (models ?st) = []"
    by (simp add: initial_plugin_def)
  from setModels_write_and_get [where resolve = example_resolver and up = no_unicode and h = ?h and st = ?st
      and functionName = "''createUser''" and requestModelName = "''Api.CreateUser.Request.Body''"
      and responseModelName = "''Api.CreateUser.Response''"
      and responseSchema = "JObj [(''title'', JStr ''Api.CreateUser.Response'')]"
      and requestSchema = "JObj [(''title'', JStr ''Api.CreateUser.Request.Body'')]", OF a b c d] e f
  show ?thesis by auto
qed

text \<open>
  C2 as stated fails for the function name \<^verbatim>\<open>create_user\<close>: its PascalCase is
  \<^verbatim>\<open>CreateUser\<close>, and the models registered for a POST event are named after
  \<^verbatim>\<open>Create_user\<close>.
\<close>

theorem pascal_case_counterexample:
  "spec_PascalCase ''create_user'' = ''CreateUser'' \<and>
   registry (models (fst (projr (setModels example_resolver no_unicode (initial_plugin ''Api'' None)
       (example_event ''POST'' (JObj [(''summary'', JStr ''Create a user'')])) ''create_user'')))) =
     [model_entry ''Api.Create_user.Request.Body'' (JObj [(''title'', JStr ''Api.Create_user.Request.Body'')]),
      model_entry ''Api.Create_user.Response'' (JObj [(''title'', JStr ''Api.Create_user.Response'')])]"
  by code_simp

lemma generateSchema_models:
  "generateSchema resolve st n = Inr (s, st') \<Longrightarrow> models st' = models st"
  by (auto simp: generateSchema_def Let_def split: option.splits if_splits)

lemma grows_iff:
  "grows st st' = (\<exists>new. registry (models st') = registry (models st) @ new)"
proof
  assume "grows st st'"
  then have "registry (models st') =
      registry (models st) @ drop (length (registry (models st))) (registry (models st'))"
    using append_take_drop_id [of "length (registry (models st))" "registry (models st')"]
    by (simp add: grows_def)
  then show "\<exists>new. registry (models st') = registry (models st) @ new" ..
next
  assume "\<exists>new. registry (models st') = registry (models st) @ new"
  then show "grows st st'" by (auto simp: grows_def)
qed

lemma grows_refl: "grows st st"
  by (simp add: grows_iff)

lemma grows_trans: "grows a b \<Longrightarrow> grows b c \<Longrightarrow> grows a c"
  by (auto simp: grows_iff)

lemma grows_models_eq: "models st' = models st \<Longrightarrow> grows st st'"
  by (simp add: grows_iff)

lemma setModel_grows: "setModel resolve st n = Inr st' \<Longrightarrow> grows st st'"
  by (auto simp: setModel_def grows_iff split: sum.splits dest: generateSchema_models)

lemma setModels_get_grows: "setModels_get resolve st h p = Inr (st', h') \<Longrightarrow> grows st st'"
  by (auto simp: setModels_get_def Let_def split: sum.splits dest: setModel_grows)

lemma setModels_grows: "setModels resolve up st h fn = Inr (st', h') \<Longrightarrow> grows st st'"
  by (auto simp: setModels_def Let_def grows_refl split: sum.splits if_splits
           dest!: setModel_grows setModels_get_grows intro: grows_trans)

lemma resolve_param_schema_models:
  "resolve_param_schema resolve st ex = Inr (st', ex') \<Longrightarrow> models st' = models st"
  by (auto simp: resolve_param_schema_def split: jv.splits sum.splits dest: generateSchema_models)

lemma param_step_models:
  "param_step resolve key st doc name required = Inr (st', doc') \<Longrightarrow> models st' = models st"
  by (auto simp: param_step_def Let_def split: jv.splits sum.splits option.splits if_splits
           dest: resolve_param_schema_models)

lemma param_steps_models:
  "param_steps resolve key st doc entries = Inr (st', doc') \<Longrightarrow> models st' = models st"
proof (induction entries arbitrary: st doc)
  case Nil
  then show ?case by simp
next
  case (Cons entry entries)
  obtain name required where entry: "entry = (name, required)" by (cases entry)
  with Cons.prems obtain st1 doc1 where
    step: "param_step resolve key st doc name required = Inr (st1, doc1)" and
    rest: "param_steps resolve key st1 doc1 entries = Inr (st', doc')"
    by (auto split: sum.splits)
  from Cons.IH [OF rest] param_step_models [OF step] show ?case by simp
qed

lemma setDefaultParamsDocumentation_grows:
  "setDefaultParamsDocumentation resolve st params h key = Inr (st', h') \<Longrightarrow> grows st st'"
  by (auto simp: setDefaultParamsDocumentation_def split: sum.splits
           dest!: param_steps_models intro: grows_models_eq)

lemma scan_event_grows:
  assumes "scan_event resolve up fn st ev = Inr (st', ev')"
  shows "grows st st'"
proof (cases ev)
  case None
  with assms show ?thesis by (simp add: scan_event_def grows_refl)
next
  case (Some h)
  show ?thesis
  proof (cases "truthy (documentation h)")
    case True
    with Some assms obtain st1 h1 st2 h2 h3 where
      a: "setModels resolve up st h fn = Inr (st1, h1)" and
      b: "setDefaultParamsDocumentation resolve st1 (paths h1) h1 ''pathParams'' = Inr (st2, h2)" and
      c: "setDefaultParamsDocumentation resolve st2 (querystrings h2) h2 ''queryParams'' = Inr (st', h3)"
      by (auto simp: scan_event_def split: sum.splits)
    from setModels_grows [OF a] setDefaultParamsDocumentation_grows [OF b]
      setDefaultParamsDocumentation_grows [OF c]
    show ?thesis by (blast intro: grows_trans)
  next
    case False
    with Some assms show ?thesis
      by (auto simp: scan_event_def grows_iff split: if_splits)
  qed
qed

lemma scan_events_grows:
  "scan_events resolve up fn st evs = Inr (st', evs') \<Longrightarrow> grows st st'"
proof (induction evs arbitrary: st evs')
  case Nil
  then show ?case by (simp add: grows_refl)
next
  case (Cons ev evs)
  then obtain st1 ev1 evs1 where
    step: "scan_event resolve up fn st ev = Inr (st1, ev1)" and
    rest: "scan_events resolve up fn st1 evs = Inr (st', evs1)"
    by (auto split: sum.splits)
  from Cons.IH [OF rest] scan_event_grows [OF step] show ?case by (blast intro: grows_trans)
qed

lemma scan_functions_grows:
  "scan_functions resolve up pathGet functions st names = Inr (st', fs') \<Longrightarrow> grows st st'"
proof (induction names arbitrary: st fs')
  case Nil
  then show ?case by (simp add: grows_refl)
next
  case (Cons fn names)
  then obtain evs st1 evs1 fs1 where
    step: "scan_events resolve up fn st evs = Inr (st1, evs1)" and
    rest: "scan_functions resolve up pathGet functions st1 names = Inr (st', fs1)"
    by (auto split: sum.splits)
  from Cons.IH [OF rest] scan_events_grows [OF step] show ?case by (blast intro: grows_trans)
qed

text \<open>
  Claim C9. A registration whose schema is generated appends exactly one entry
  \<open>{name, contentType: application/json, schema}\<close> at the end of the registry and keeps
  the earlier entries as they are, in order, whether or not the name is already there;
  and over a whole scan the final registry starts with the initial one.
\<close>

theorem registry_append_only:
  "(resolve modelName = Some schema \<longrightarrow>
      (\<exists>st'. setModel resolve st modelName = Inr st' \<and>
         registry (models st') = registry (models st) @
           [JObj [(''name'', JStr modelName), (''contentType'', JStr ''application/json''),
                  (''schema'', schema)]])) \<and>
   (\<forall>st' fs'. scan_functions resolve up pathGet fs st names = Inr (st', fs') \<longrightarrow>
      (\<exists>new. registry (models st') = registry (models st) @ new))"
proof (intro conjI impI allI)
  assume "resolve modelName = Some schema"
  then show "\<exists>st'. setModel resolve st modelName = Inr st' \<and>
         registry (models st') = registry (models st) @
           [JObj [(''name'', JStr modelName), (''contentType'', JStr ''application/json''),
                  (''schema'', schema)]]"
    by (simp add: setModel_Some model_entry_def)
next
  fix st' fs'
  assume "scan_functions resolve up pathGet fs st names = Inr (st', fs')"
  then have "grows st st'" by (rule scan_functions_grows)
  then show "\<exists>new. registry (models st') = registry (models st) @ new"
    by (simp add: grows_iff)
qed

text \<open>The theorem of C9 when the name being registered is already in the registry.\<close>

theorem registry_append_only_witness:
  "(\<exists>st'. setModel example_resolver
            (initial_plugin ''Api'' (Some [model_entry ''Api.GetUser.Response'' (JObj [(''title'', JStr ''old'')])]))
            ''Api.GetUser.Response'' = Inr st' \<and>
          registry (models st') =
            [model_entry ''Api.GetUser.Response'' (JObj [(''title'', JStr ''old'')]),
             JObj [(''name'', JStr ''Api.GetUser.Response''), (''contentType'', JStr ''application/json''),
                   (''schema'', JObj [(''title'', JStr ''Api.GetUser.Response'')])]]) \<and>
   (\<exists>new. registry (models (fst (projr (scan_functions example_resolver no_unicode no_path twice_get
              (initial_plugin ''Api'' (Some [model_entry ''Api.GetUser.Response'' (JObj [(''title'', JStr ''old'')])]))
              (map fst twice_get))))) =
          [model_entry ''Api.GetUser.Response'' (JObj [(''title'', JStr ''old'')])] @ new)"
proof -
  let ?st = "initial_plugin ''Api'' (Some [model_entry ''Api.GetUser.Response'' (JObj [(''title'', JStr ''old'')])])"
  let ?scan = "scan_functions example_resolver no_unicode no_path twice_get ?st (map fst twice_get)"
  have a: "example_resolver ''Api.GetUser.Response'' = Some (JObj [(''title'', JStr ''Api.GetUser.Response'')])"
    by (simp add: example_resolver_def)
  have b: "registry (models ?st) = [model_entry ''Api.GetUser.Response'' (JObj [(''title'', JStr ''old'')])]"
    by (simp add: initial_plugin_def)
  have "case ?scan of Inl e \<Rightarrow> False | Inr r \<Rightarrow> True"
    by code_simp
  then obtain st1 fs1 where c: "?scan = Inr (st1, fs1)"
    by (cases ?scan) auto
  from registry_append_only [where resolve = example_resolver and modelName = "''Api.GetUser.Response''"
      and schema = "JObj [(''title'', JStr ''Api.GetUser.Response'')]" and st = ?st and up = no_unicode
      and pathGet = no_path and fs = twice_get and names = "map fst twice_get"] a b c
  show ?thesis by simp
qed

section \<open>Calls to the schema generator\<close>

lemma generateSchema_once:
  "generateSchema resolve st n = Inr (s, st') \<Longrightarrow> generator_once st \<Longrightarrow> generator_once st'"
  by (auto simp: generateSchema_def Let_def generator_once_def generator_calls_def
           split: option.splits if_splits)

lemma setModel_once:
  "setModel resolve st n = Inr st' \<Longrightarrow> generator_once st \<Longrightarrow> generator_once st'"
  by (auto simp: setModel_def generator_once_def generator_calls_def split: sum.splits
           dest!: generateSchema_once)

lemma setModels_get_once:
  "setModels_get resolve st h p = Inr (st', h') \<Longrightarrow> generator_once st \<Longrightarrow> generator_once st'"
  by (auto simp: setModels_get_def Let_def split: sum.splits dest: setModel_once)

lemma setModels_once:
  "setModels resolve up st h fn = Inr (st', h') \<Longrightarrow> generator_once st \<Longrightarrow> generator_once st'"
  by (auto simp: setModels_def Let_def split: sum.splits if_splits
           dest: setModel_once setModels_get_once)

lemma resolve_param_schema_once:
  "resolve_param_schema resolve st ex = Inr (st', ex') \<Longrightarrow> generator_once st \<Longrightarrow> generator_once st'"
  by (auto simp: resolve_param_schema_def split: jv.splits sum.splits dest: generateSchema_once)

lemma param_step_once:
  "param_step resolve key st doc name required = Inr (st', doc') \<Longrightarrow> generator_once st \<Longrightarrow> generator_once st'"
  by (auto simp: param_step_def Let_def split: jv.splits sum.splits option.splits if_splits
           dest: resolve_param_schema_once)

lemma param_steps_once:
  "param_steps resolve key st doc entries = Inr (st', doc') \<Longrightarrow> generator_once st \<Longrightarrow> generator_once st'"
proof (induction entries arbitrary: st doc)
  case Nil
  then show ?case by simp
next
  case (Cons entry entries)
  obtain name required where entry: "entry = (name, required)" by (cases entry)
  with Cons.prems obtain st1 doc1 where
    step: "param_step resolve key st doc name required = Inr (st1, doc1)" and
    rest: "param_steps resolve key st1 doc1 entries = Inr (st', doc')"
    by (auto split: sum.splits)
  from param_step_once [OF step Cons.prems(2)] have "generator_once st1" .
  with Cons.IH [OF rest] show ?case by simp
qed

lemma setDefaultParamsDocumentation_once:
  "setDefaultParamsDocumentation resolve st params h key = Inr (st', h') \<Longrightarrow>
   generator_once st \<Longrightarrow> generator_once st'"
  by (auto simp: setDefaultParamsDocumentation_def split: sum.splits dest: param_steps_once)

lemma scan_event_once:
  assumes "scan_event resolve up fn st ev = Inr (st', ev')" and "generator_once st"
  shows "generator_once st'"
proof (cases ev)
  case None
  with assms show ?thesis by (simp add: scan_event_def)
next
  case (Some h)
  show ?thesis
  proof (cases "truthy (documentation h)")
    case True
    with Some assms obtain st1 h1 st2 h2 h3 where
      a: "setModels resolve up st h fn = Inr (st1, h1)" and
      b: "setDefaultParamsDocumentation resolve st1 (paths h1) h1 ''pathParams'' = Inr (st2, h2)" and
      c: "setDefaultParamsDocumentation resolve st2 (querystrings h2) h2 ''queryParams'' = Inr (st', h3)"
      by (auto simp: scan_event_def split: sum.splits)
    from setModels_once [OF a assms(2)] have "generator_once st1" .
    from setDefaultParamsDocumentation_once [OF b this] have "generator_once st2" .
    from setDefaultParamsDocumentation_once [OF c this] show ?thesis .
  next
    case False
    with Some assms show ?thesis
      by (auto simp: scan_event_def generator_once_def generator_calls_def split: if_splits)
  qed
qed

lemma scan_events_once:
  "scan_events resolve up fn st evs = Inr (st', evs') \<Longrightarrow> generator_once st \<Longrightarrow> generator_once st'"
proof (induction evs arbitrary: st evs')
  case Nil
  then show ?case by simp
next
  case (Cons ev evs)
  then obtain st1 ev1 evs1 where
    step: "scan_event resolve up fn st ev = Inr (st1, ev1)" and
    rest: "scan_events resolve up fn st1 evs = Inr (st', evs1)"
    by (auto split: sum.splits)
  from scan_event_once [OF step Cons.prems(2)] have "generator_once st1" .
  with Cons.IH [OF rest] show ?case by simp
qed

lemma scan_functions_once:
  "scan_functions resolve up pathGet functions st names = Inr (st', fs') \<Longrightarrow>
   generator_once st \<Longrightarrow> generator_once st'"
proof (induction names arbitrary: st fs')
  case Nil
  then show ?case by simp
next
  case (Cons fn names)
  then obtain evs st1 evs1 fs1 where
    step: "scan_events resolve up fn st evs = Inr (st1, evs1)" and
    rest: "scan_functions resolve up pathGet functions st1 names = Inr (st', fs1)"
    by (auto split: sum.splits)
  from scan_events_once [OF step Cons.prems(2)] have "generator_once st1" .
  with Cons.IH [OF rest] show ?case by simp
qed

lemma resolve_param_schema_calls:
  assumes "resolve_param_schema resolve st existing = Inr (st', existing')"
  shows "(case obj_get existing ''schema'' of
            JStr s \<Rightarrow>
              calls st' = calls st @ (if schemaGenerator st then [] else [CreateGenerator]) @ [CreateSchema s]
          | _ \<Rightarrow> calls st' = calls st)"
  using assms
  by (auto simp: resolve_param_schema_def generateSchema_def Let_def
           split: jv.splits option.splits sum.splits)

text \<open>
  Claim C8, as amended. What is kept for the rest of a run is the generator object: a
  scan that starts from the constructor's state calls \<^verbatim>\<open>createGenerator\<close> at most once.
  Every successful \<open>generateSchema\<close>, and so every registration, calls
  \<^verbatim>\<open>createSchema\<close> once with its model name and returns what that call returned,
  whether or not the name was asked for before. A round of the parameter defaults calls
  \<^verbatim>\<open>createSchema\<close> once, with the schema string, when the entry it finds has a string
  schema, and makes no call otherwise.
\<close>

theorem generator_created_once:
  "(\<forall>st' fs'. scan_functions resolve up pathGet fs (initial_plugin ns ms) names = Inr (st', fs') \<longrightarrow>
      generator_calls st' \<le> 1) \<and>
   (\<forall>s st'. generateSchema resolve st modelName = Inr (s, st') \<longrightarrow>
      resolve modelName = Some s \<and>
      calls st' = calls st @ (if schemaGenerator st then [] else [CreateGenerator]) @ [CreateSchema modelName]) \<and>
   (\<forall>st'. setModel resolve st modelName = Inr st' \<longrightarrow>
      calls st' = calls st @ (if schemaGenerator st then [] else [CreateGenerator]) @ [CreateSchema modelName]) \<and>
   (\<forall>st' existing'. resolve_param_schema resolve st existing = Inr (st', existing') \<longrightarrow>
      (case obj_get existing ''schema'' of
         JStr s \<Rightarrow>
           calls st' = calls st @ (if schemaGenerator st then [] else [CreateGenerator]) @ [CreateSchema s]
       | _ \<Rightarrow> calls st' = calls st)) \<and>
   (\<forall>st' doc' ps.
      param_step resolve key st (JObj kvs) name required = Inr (st', doc') \<and>
      JArr ps = (if truthy (obj_get kvs key) then obj_get kvs key else JArr []) \<longrightarrow>
      (find_param ps name = Inr None \<longrightarrow> calls st' = calls st) \<and>
      (\<forall>i found. find_param ps name = Inr (Some i) \<and> ps ! i = JObj found \<longrightarrow>
         (case obj_get found ''schema'' of
            JStr s \<Rightarrow>
              calls st' = calls st @ (if schemaGenerator st then [] else [CreateGenerator]) @ [CreateSchema s]
          | _ \<Rightarrow> calls st' = calls st)))"
proof (intro conjI allI impI)
  fix st' fs'
  assume a: "scan_functions resolve up pathGet fs (initial_plugin ns ms) names = Inr (st', fs')"
  have "generator_once (initial_plugin ns ms)"
    by (simp add: generator_once_def generator_calls_def initial_plugin_def)
  from scan_functions_once [OF a this] show "generator_calls st' \<le> 1"
    by (simp add: generator_once_def split: if_splits)
next
  fix s st'
  assume "generateSchema resolve st modelName = Inr (s, st')"
  then show "resolve modelName = Some s"
    and "calls st' = calls st @ (if schemaGenerator st then [] else [CreateGenerator]) @ [CreateSchema modelName]"
    by (auto simp: generateSchema_def Let_def split: option.splits)
next
  fix st'
  assume "setModel resolve st modelName = Inr st'"
  then show "calls st' = calls st @ (if schemaGenerator st then [] else [CreateGenerator]) @ [CreateSchema modelName]"
    by (auto simp: setModel_def generateSchema_def Let_def split: option.splits sum.splits)
next
  fix st' existing'
  assume "resolve_param_schema resolve st existing = Inr (st', existing')"
  then show "(case obj_get existing ''schema'' of
         JStr s \<Rightarrow>
           calls st' = calls st @ (if schemaGenerator st then [] else [CreateGenerator]) @ [CreateSchema s]
       | _ \<Rightarrow> calls st' = calls st)"
    by (rule resolve_param_schema_calls)
next
  fix st' doc' ps
  assume h: "param_step resolve key st (JObj kvs) name required = Inr (st', doc') \<and>
      JArr ps = (if truthy (obj_get kvs key) then obj_get kvs key else JArr [])"
  assume "find_param ps name = Inr None"
  with h show "calls st' = calls st"
    by (auto simp: param_step_def Let_def dest: sym)
next
  fix st' doc' ps i found
  assume h: "param_step resolve key st (JObj kvs) name required = Inr (st', doc') \<and>
      JArr ps = (if truthy (obj_get kvs key) then obj_get kvs key else JArr [])"
  assume f: "find_param ps name = Inr (Some i) \<and> ps ! i = JObj found"
  from h have arr: "(if truthy (obj_get kvs key) then obj_get kvs key else JArr []) = JArr ps"
    by simp
  from h f arr obtain found' where "resolve_param_schema resolve st found = Inr (st', found')"
    by (auto simp: param_step_def Let_def split: sum.splits)
  then show "(case obj_get found ''schema'' of
            JStr s \<Rightarrow>
              calls st' = calls st @ (if schemaGenerator st then [] else [CreateGenerator]) @ [CreateSchema s]
          | _ \<Rightarrow> calls st' = calls st)"
    by (rule resolve_param_schema_calls)
qed

text \<open>
  C8 as stated fails for a function with two GET events: the same model name is passed
  to \<^verbatim>\<open>createSchema\<close> twice.
\<close>

theorem resolver_called_twice_counterexample:
  "calls (fst (projr (scan_functions example_resolver no_unicode no_path twice_get
      (initial_plugin ''Api'' None) (map fst twice_get)))) =
   [CreateGenerator, CreateSchema ''Api.GetUser.Response'', CreateSchema ''Api.GetUser.Response'']"
  by code_simp

text \<open>The theorem of C8 on that function, and on a second registration of one name.\<close>

theorem generator_created_once_witness:
  "generator_calls (fst (projr (scan_functions example_resolver no_unicode no_path twice_get
      (initial_plugin ''Api'' None) (map fst twice_get)))) \<le> 1 \<and>
   calls (projr (setModel example_resolver
                  ((initial_plugin ''Api'' None)\<lparr>calls := [CreateGenerator, CreateSchema ''A''], schemaGenerator := True\<rparr>) ''A'')) =
     [CreateGenerator, CreateSchema ''A'', CreateSchema ''A''] \<and>
   calls (fst (projr (resolve_param_schema example_resolver (initial_plugin ''Api'' None) documented_id))) =
     [CreateGenerator, CreateSchema ''Foo.Bar'']"
proof -
  let ?st = "(initial_plugin ''Api'' None)\<lparr>calls := [CreateGenerator, CreateSchema ''A''], schemaGenerator := True\<rparr>"
  let ?scan = "scan_functions example_resolver no_unicode no_path twice_get
      (initial_plugin ''Api'' None) (map fst twice_get)"
  have "case ?scan of Inl e \<Rightarrow> False | Inr r \<Rightarrow> True"
    by code_simp
  then obtain st1 fs1 where a: "?scan = Inr (st1, fs1)"
    by (cases ?scan) auto
  have "case setModel example_resolver ?st ''A'' of Inl e \<Rightarrow> False | Inr r \<Rightarrow> True"
    by code_simp
  then obtain st2 where b: "setModel example_resolver ?st ''A'' = Inr st2"
    by (cases "setModel example_resolver ?st ''A''") auto
  note inst = generator_created_once [where resolve = example_resolver and up = no_unicode
      and pathGet = no_path and fs = twice_get and names = "map fst twice_get"
      and ns = "''Api''" and ms = None and st = ?st and modelName = "''A''"]
  from inst [THEN conjunct1, THEN spec, THEN spec, THEN mp, OF a]
  have c: "generator_calls st1 \<le> 1" .
  from inst [THEN conjunct2, THEN conjunct2, THEN conjunct1, THEN spec, THEN mp, OF b]
  have d: "calls st2 = [CreateGenerator, CreateSchema ''A'', CreateSchema ''A'']"
    by (simp add: initial_plugin_def)
  have "case resolve_param_schema example_resolver (initial_plugin ''Api'' None) documented_id of
          Inl e \<Rightarrow> False | Inr r \<Rightarrow> True"
    by code_simp
  then obtain st3 entry where
    e: "resolve_param_schema example_resolver (initial_plugin ''Api'' None) documented_id = Inr (st3, entry)"
    by (cases "resolve_param_schema example_resolver (initial_plugin ''Api'' None) documented_id") auto
  from generator_created_once [where resolve = example_resolver and st = "initial_plugin ''Api'' None"
      and existing = documented_id,
      THEN conjunct2, THEN conjunct2, THEN conjunct2, THEN conjunct1, THEN spec, THEN spec, THEN mp, OF e]
  have f: "calls st3 = [CreateGenerator, CreateSchema ''Foo.Bar'']"
    by (simp add: documented_id_def initial_plugin_def)
  from a b c d e f show ?thesis by simp
qed

section \<open>Parameter defaults\<close>

lemma keys_obj_set_list:
  "keys (obj_set t k v) = (if k \<in> set (keys t) then keys t else keys t @ [k])"
  by (induction t) (force simp: keys_def)+

lemma keys_obj_set: "set (keys (obj_set t k v)) = insert k (set (keys t))"
  by (auto simp: keys_obj_set_list)

lemma distinct_obj_set: "distinct (keys t) \<Longrightarrow> distinct (keys (obj_set t k v))"
proof (induction t)
  case Nil
  then show ?case by (simp add: keys_def)
next
  case (Cons kv t)
  obtain k' v' where kv: "kv = (k', v')" by (cases kv)
  from Cons.prems kv have d: "distinct (keys t)" and n: "k' \<notin> set (keys t)"
    by (simp_all add: keys_def)
  show ?case
  proof (cases "k' = k")
    case True
    with Cons.prems kv show ?thesis by (simp add: keys_def)
  next
    case False
    have "keys (obj_set (kv # t) k v) = k' # keys (obj_set t k v)"
      using False kv by (simp add: keys_def)
    moreover have "k' \<notin> set (keys (obj_set t k v))"
      using n False by (simp add: keys_obj_set)
    ultimately show ?thesis using Cons.IH [OF d] by simp
  qed
qed

lemma obj_get_absent: "k \<notin> set (keys t) \<Longrightarrow> obj_get t k = JUndefined"
  by (induction t) (auto simp: keys_def)

lemma keys_obj_assign: "set (keys (obj_assign t s)) = set (keys t) \<union> set (keys s)"
proof (induction s arbitrary: t)
  case Nil
  then show ?case by (simp add: keys_def)
next
  case (Cons kv s)
  obtain k v where kv: "kv = (k, v)" by (cases kv)
  have "set (keys (obj_assign (obj_set t k v) s)) = set (keys (obj_set t k v)) \<union> set (keys s)"
    by (rule Cons.IH)
  with kv show ?case by (simp add: keys_obj_set) (simp add: keys_def)
qed

lemma distinct_obj_assign: "distinct (keys t) \<Longrightarrow> distinct (keys (obj_assign t s))"
proof (induction s arbitrary: t)
  case Nil
  then show ?case by simp
next
  case (Cons kv s)
  obtain k v where kv: "kv = (k, v)" by (cases kv)
  from Cons.prems have "distinct (keys (obj_set t k v))" by (rule distinct_obj_set)
  then have "distinct (keys (obj_assign (obj_set t k v) s))" by (rule Cons.IH)
  with kv show ?case by simp
qed

lemma obj_get_obj_assign:
  "distinct (keys s) \<Longrightarrow>
   obj_get (obj_assign t s) k = (if k \<in> set (keys s) then obj_get s k else obj_get t k)"
proof (induction s arbitrary: t)
  case Nil
  then show ?case by (simp add: keys_def)
next
  case (Cons kv s)
  obtain k' v where kv: "kv = (k', v)" by (cases kv)
  from Cons.prems kv have d: "distinct (keys s)" and n: "k' \<notin> set (keys s)"
    by (simp_all add: keys_def)
  have ih: "obj_get (obj_assign (obj_set t k' v) s) k =
          (if k \<in> set (keys s) then obj_get s k else obj_get (obj_set t k' v) k)"
    using d by (rule Cons.IH)
  show ?case
  proof (cases "k = k'")
    case True
    with ih n kv show ?thesis by (simp add: obj_get_obj_set keys_def)
  next
    case False
    with ih kv show ?thesis by (simp add: obj_get_obj_set keys_def)
  qed
qed

lemma distinct_default: "distinct (keys (paramDocumentationFromSls name required))"
  by (simp add: paramDocumentationFromSls_def keys_def)

lemma obj_get_merge_param:
  assumes "distinct (keys existing)"
  shows "obj_get (merge_param existing name required) k =
           (if k \<in> set (keys existing) then obj_get existing k
            else obj_get (paramDocumentationFromSls name required) k)"
proof -
  let ?d = "paramDocumentationFromSls name required"
  let ?m = "obj_assign ?d existing"
  have dm: "distinct (keys ?m)"
    using distinct_default by (rule distinct_obj_assign)
  have km: "set (keys ?m) = set (keys ?d) \<union> set (keys existing)"
    by (rule keys_obj_assign)
  have gm: "obj_get ?m k = (if k \<in> set (keys existing) then obj_get existing k else obj_get ?d k)"
    using assms by (rule obj_get_obj_assign)
  have "obj_get (obj_assign existing ?m) k = (if k \<in> set (keys ?m) then obj_get ?m k else obj_get existing k)"
    using dm by (rule obj_get_obj_assign)
  with km gm show ?thesis
    by (auto simp: merge_param_def obj_get_absent)
qed

lemma keys_merge_param:
  "set (keys (merge_param existing name required)) =
     set (keys existing) \<union> {''name'', ''required'', ''schema''}"
  by (auto simp: merge_param_def keys_obj_assign) (auto simp: paramDocumentationFromSls_def keys_def)

lemma find_param_None:
  "\<forall>p \<in> set ps. p \<noteq> JUndefined \<and> p \<noteq> JNull \<and> doc_get p ''name'' \<noteq> JStr name \<Longrightarrow>
   find_param ps name = Inr None"
  by (induction ps name rule: find_param.induct) auto

lemma find_param_Cons:
  "p \<noteq> JUndefined \<Longrightarrow> p \<noteq> JNull \<Longrightarrow>
   find_param (p # ps) name =
     (if doc_get p ''name'' = JStr name then Inr (Some 0)
      else case find_param ps name of
             Inl e \<Rightarrow> Inl e
           | Inr None \<Rightarrow> Inr None
           | Inr (Some i) \<Rightarrow> Inr (Some (Suc i)))"
  by (cases p) simp_all

lemma find_param_Some:
  "i < length ps \<Longrightarrow> doc_get (ps ! i) ''name'' = JStr name \<Longrightarrow>
   \<forall>j < i. ps ! j \<noteq> JUndefined \<and> ps ! j \<noteq> JNull \<and> doc_get (ps ! j) ''name'' \<noteq> JStr name \<Longrightarrow>
   find_param ps name = Inr (Some i)"
proof (induction ps arbitrary: i)
  case Nil
  then show ?case by simp
next
  case (Cons p ps)
  show ?case
  proof (cases i)
    case 0
    with Cons.prems have hit: "doc_get p ''name'' = JStr name" by simp
    then have "p \<noteq> JUndefined" and "p \<noteq> JNull" by auto
    with hit 0 show ?thesis by (simp add: find_param_Cons)
  next
    case (Suc i')
    with Cons.prems have head: "p \<noteq> JUndefined" "p \<noteq> JNull" "doc_get p ''name'' \<noteq> JStr name"
      by auto
    from Suc Cons.prems have "find_param ps name = Inr (Some i')"
      by (intro Cons.IH) auto
    with head Suc show ?thesis by (simp add: find_param_Cons)
  qed
qed

lemma param_step_round:
  assumes "JArr ps = (if truthy (obj_get kvs key) then obj_get kvs key else JArr [])"
  shows "((\<forall>p \<in> set ps. p \<noteq> JUndefined \<and> p \<noteq> JNull \<and> doc_get p ''name'' \<noteq> JStr name) \<longrightarrow>
            param_step resolve key st (JObj kvs) name required =
              Inr (st, JObj (obj_set kvs key (JArr (ps @
                     [JObj [(''name'', JStr name), (''required'', required),
                            (''schema'', JObj [(''type'', JStr ''string'')])]]))))) \<and>
         (\<forall>i existing.
            i < length ps \<and> ps ! i = JObj existing \<and> obj_get existing ''name'' = JStr name \<and>
            distinct (keys existing) \<and>
            (\<forall>j < i. ps ! j \<noteq> JUndefined \<and> ps ! j \<noteq> JNull \<and> doc_get (ps ! j) ''name'' \<noteq> JStr name) \<and>
            (\<forall>s. obj_get existing ''schema'' = JStr s \<longrightarrow> resolve s \<noteq> None) \<longrightarrow>
            (\<exists>st' merged.
               param_step resolve key st (JObj kvs) name required =
                 Inr (st', JObj (obj_set kvs key (JArr (ps[i := JObj merged])))) \<and>
               (\<forall>s schema. obj_get existing ''schema'' = JStr s \<and> resolve s = Some schema \<longrightarrow>
                  obj_get merged ''schema'' = schema) \<and>
               (\<forall>k \<in> set (keys existing).
                  k \<noteq> ''schema'' \<or> (\<forall>s. obj_get existing ''schema'' \<noteq> JStr s) \<longrightarrow>
                  obj_get merged k = obj_get existing k) \<and>
               (\<forall>k. k \<notin> set (keys existing) \<longrightarrow>
                  obj_get merged k =
                    obj_get [(''name'', JStr name), (''required'', required),
                             (''schema'', JObj [(''type'', JStr ''string'')])] k) \<and>
               set (keys merged) = set (keys existing) \<union> {''name'', ''required'', ''schema''} \<and>
               ((\<forall>s. obj_get existing ''schema'' \<noteq> JStr s) \<longrightarrow> st' = st)))"
proof (intro conjI allI impI)
  assume "\<forall>p \<in> set ps. p \<noteq> JUndefined \<and> p \<noteq> JNull \<and> doc_get p ''name'' \<noteq> JStr name"
  then have "find_param ps name = Inr None" by (rule find_param_None)
  with assms [symmetric]
  show "param_step resolve key st (JObj kvs) name required =
              Inr (st, JObj (obj_set kvs key (JArr (ps @
                     [JObj [(''name'', JStr name), (''required'', required),
                            (''schema'', JObj [(''type'', JStr ''string'')])]]))))"
    by (simp add: param_step_def Let_def paramDocumentationFromSls_def)
next
  fix i existing
  assume h: "i < length ps \<and> ps ! i = JObj existing \<and> obj_get existing ''name'' = JStr name \<and>
            distinct (keys existing) \<and>
            (\<forall>j < i. ps ! j \<noteq> JUndefined \<and> ps ! j \<noteq> JNull \<and> doc_get (ps ! j) ''name'' \<noteq> JStr name) \<and>
            (\<forall>s. obj_get existing ''schema'' = JStr s \<longrightarrow> resolve s \<noteq> None)"
  then have found: "find_param ps name = Inr (Some i)"
    by (intro find_param_Some) auto
  from h have ex: "ps ! i = JObj existing" and dist: "distinct (keys existing)" by auto
  let ?d = "[(''name'', JStr name), (''required'', required), (''schema'', JObj [(''type'', JStr ''string'')])]"
  have step: "param_step resolve key st (JObj kvs) name required =
      (case resolve_param_schema resolve st existing of
         Inl e \<Rightarrow> Inl e
       | Inr (st1, existing1) \<Rightarrow>
           Inr (st1, JObj (obj_set kvs key (JArr (ps[i := JObj (merge_param existing1 name required)])))))"
    using assms [symmetric] found ex by (simp add: param_step_def Let_def)
  show "\<exists>st' merged.
               param_step resolve key st (JObj kvs) name required =
                 Inr (st', JObj (obj_set kvs key (JArr (ps[i := JObj merged])))) \<and>
               (\<forall>s schema. obj_get existing ''schema'' = JStr s \<and> resolve s = Some schema \<longrightarrow>
                  obj_get merged ''schema'' = schema) \<and>
               (\<forall>k \<in> set (keys existing).
                  k \<noteq> ''schema'' \<or> (\<forall>s. obj_get existing ''schema'' \<noteq> JStr s) \<longrightarrow>
                  obj_get merged k = obj_get existing k) \<and>
               (\<forall>k. k \<notin> set (keys existing) \<longrightarrow> obj_get merged k = obj_get ?d k) \<and>
               set (keys merged) = set (keys existing) \<union> {''name'', ''required'', ''schema''} \<and>
               ((\<forall>s. obj_get existing ''schema'' \<noteq> JStr s) \<longrightarrow> st' = st)"
  proof (cases "\<exists>s. obj_get existing ''schema'' = JStr s")
    case False
    then have r: "resolve_param_schema resolve st existing = Inr (st, existing)"
      by (auto simp: resolve_param_schema_def split: jv.splits)
    let ?m = "merge_param existing name required"
    have "param_step resolve key st (JObj kvs) name required =
            Inr (st, JObj (obj_set kvs key (JArr (ps[i := JObj ?m]))))"
      using step r by simp
    moreover have "\<forall>k \<in> set (keys existing). obj_get ?m k = obj_get existing k"
      using dist by (simp add: obj_get_merge_param)
    moreover have "\<forall>k. k \<notin> set (keys existing) \<longrightarrow> obj_get ?m k = obj_get ?d k"
      using dist by (simp add: obj_get_merge_param paramDocumentationFromSls_def)
    moreover have "set (keys ?m) = set (keys existing) \<union> {''name'', ''required'', ''schema''}"
      by (rule keys_merge_param)
    ultimately show ?thesis using False by blast
  next
    case True
    then obtain s where s: "obj_get existing ''schema'' = JStr s" by blast
    with h obtain schema where rs: "resolve s = Some schema" by auto
    let ?st1 = "st\<lparr>schemaGenerator := True,
             calls := calls st @ (if schemaGenerator st then [] else [CreateGenerator]) @ [CreateSchema s]\<rparr>"
    let ?e1 = "obj_set existing ''schema'' schema"
    let ?m = "merge_param ?e1 name required"
    have r: "resolve_param_schema resolve st existing = Inr (?st1, ?e1)"
      using s rs by (simp add: resolve_param_schema_def generateSchema_def)
    have inkeys: "''schema'' \<in> set (keys existing)"
      using s obj_get_absent [of "''schema''" existing] by auto
    have k1: "set (keys ?e1) = set (keys existing)"
      using inkeys by (auto simp: keys_obj_set)
    have d1: "distinct (keys ?e1)"
      using dist by (rule distinct_obj_set)
    have get: "obj_get ?m k = (if k \<in> set (keys existing) then obj_get ?e1 k else obj_get ?d k)" for k
      using obj_get_merge_param [OF d1, of name required k] k1
      by (simp add: paramDocumentationFromSls_def)
    have "param_step resolve key st (JObj kvs) name required =
            Inr (?st1, JObj (obj_set kvs key (JArr (ps[i := JObj ?m]))))"
      using step r by simp
    moreover have "\<forall>s' schema'. obj_get existing ''schema'' = JStr s' \<and> resolve s' = Some schema' \<longrightarrow>
                  obj_get ?m ''schema'' = schema'"
      using s rs inkeys by (auto simp: get obj_get_obj_set)
    moreover have "\<forall>k \<in> set (keys existing).
                  k \<noteq> ''schema'' \<or> (\<forall>s. obj_get existing ''schema'' \<noteq> JStr s) \<longrightarrow>
                  obj_get ?m k = obj_get existing k"
      using s by (auto simp: get obj_get_obj_set)
    moreover have "\<forall>k. k \<notin> set (keys existing) \<longrightarrow> obj_get ?m k = obj_get ?d k"
      by (simp add: get)
    moreover have "set (keys ?m) = set (keys existing) \<union> {''name'', ''required'', ''schema''}"
      using keys_merge_param [of ?e1 name required] k1 by simp
    ultimately show ?thesis using s by blast
  qed
qed

lemma obj_set_obj_set: "obj_set (obj_set kvs k v) k v' = obj_set kvs k v'"
  by (induction kvs) auto

lemma find_param_wf:
  "list_all wf_param ps \<Longrightarrow>
   (find_param ps name = Inr None \<and> JStr name \<notin> set (param_names ps)) \<or>
   (\<exists>i. find_param ps name = Inr (Some i) \<and> i < length ps \<and> doc_get (ps ! i) ''name'' = JStr name)"
proof (induction ps)
  case Nil
  then show ?case by (simp add: param_names_def)
next
  case (Cons p ps)
  from Cons.prems have wp: "wf_param p" and rest: "list_all wf_param ps"
    by simp_all
  from wp have p: "p \<noteq> JUndefined" "p \<noteq> JNull"
    by (simp_all add: wf_param_def)
  show ?case
  proof (cases "doc_get p ''name'' = JStr name")
    case True
    with p show ?thesis by (auto simp: find_param_Cons)
  next
    case False
    from Cons.IH [OF rest] show ?thesis
    proof
      assume "find_param ps name = Inr None \<and> JStr name \<notin> set (param_names ps)"
      with p False show ?thesis by (simp add: find_param_Cons param_names_def)
    next
      assume "\<exists>i. find_param ps name = Inr (Some i) \<and> i < length ps \<and> doc_get (ps ! i) ''name'' = JStr name"
      then obtain i where "find_param ps name = Inr (Some i)" "i < length ps"
        "doc_get (ps ! i) ''name'' = JStr name" by blast
      with p False have "find_param (p # ps) name = Inr (Some (Suc i)) \<and> Suc i < length (p # ps) \<and>
          doc_get ((p # ps) ! Suc i) ''name'' = JStr name"
        by (simp add: find_param_Cons)
      then show ?thesis by blast
    qed
  qed
qed

lemma resolve_param_schema_total:
  assumes "\<forall>s. resolve s \<noteq> None" and "distinct (keys existing)"
    and "obj_get existing ''name'' = JStr name"
  shows "\<exists>st' existing'. resolve_param_schema resolve st existing = Inr (st', existing') \<and>
           distinct (keys existing') \<and> obj_get existing' ''name'' = JStr name \<and>
           ''name'' \<in> set (keys existing')"
proof -
  have inkeys: "''name'' \<in> set (keys existing)"
    using assms(3) obj_get_absent [of "''name''" existing] by auto
  show ?thesis
  proof (cases "\<exists>s. obj_get existing ''schema'' = JStr s")
    case False
    then have "resolve_param_schema resolve st existing = Inr (st, existing)"
      by (auto simp: resolve_param_schema_def split: jv.splits)
    with assms inkeys show ?thesis by simp
  next
    case True
    then obtain s where s: "obj_get existing ''schema'' = JStr s" by blast
    from assms(1) obtain schema where rs: "resolve s = Some schema" by auto
    have "resolve_param_schema resolve st existing =
       Inr (st\<lparr>schemaGenerator := True,
               calls := calls st @ (if schemaGenerator st then [] else [CreateGenerator]) @ [CreateSchema s]\<rparr>,
            obj_set existing ''schema'' schema)"
      using s rs by (simp add: resolve_param_schema_def generateSchema_def)
    moreover have "distinct (keys (obj_set existing ''schema'' schema))"
      using assms(2) by (rule distinct_obj_set)
    moreover have "obj_get (obj_set existing ''schema'' schema) ''name'' = JStr name"
      using assms(3) by (simp add: obj_get_obj_set)
    moreover have "''name'' \<in> set (keys (obj_set existing ''schema'' schema))"
      using inkeys by (simp add: keys_obj_set)
    ultimately show ?thesis by blast
  qed
qed

lemma param_step_total:
  assumes wf: "list_all wf_param ps"
    and arr: "(if truthy (obj_get kvs key) then obj_get kvs key else JArr []) = JArr ps"
    and total: "\<forall>s. resolve s \<noteq> None"
  shows "\<exists>st' ps'. param_step resolve key st (JObj kvs) name required =
             Inr (st', JObj (obj_set kvs key (JArr ps'))) \<and>
           list_all wf_param ps' \<and>
           param_names ps' =
             param_names ps @ (if JStr name \<in> set (param_names ps) then [] else [JStr name])"
  using find_param_wf [OF wf, of name]
proof
  assume none: "find_param ps name = Inr None \<and> JStr name \<notin> set (param_names ps)"
  let ?ps' = "ps @ [JObj (paramDocumentationFromSls name required)]"
  have "param_step resolve key st (JObj kvs) name required = Inr (st, JObj (obj_set kvs key (JArr ?ps')))"
    using arr none by (simp add: param_step_def Let_def)
  moreover have "list_all wf_param ?ps'"
    using wf by (simp add: wf_param_def distinct_default)
  moreover have "param_names ?ps' = param_names ps @ [JStr name]"
    by (simp add: param_names_def paramDocumentationFromSls_def)
  ultimately show ?thesis using none by auto
next
  assume "\<exists>i. find_param ps name = Inr (Some i) \<and> i < length ps \<and> doc_get (ps ! i) ''name'' = JStr name"
  then obtain i where found: "find_param ps name = Inr (Some i)" and i: "i < length ps"
    and nm: "doc_get (ps ! i) ''name'' = JStr name" by blast
  from nm obtain existing where ex: "ps ! i = JObj existing" and exn: "obj_get existing ''name'' = JStr name"
    by (cases "ps ! i") auto
  from wf i ex have dist: "distinct (keys existing)"
    by (auto simp: list_all_length wf_param_def)
  from resolve_param_schema_total [OF total dist exn, of st] obtain st' existing' where
    r: "resolve_param_schema resolve st existing = Inr (st', existing')" and
    d': "distinct (keys existing')" and n': "obj_get existing' ''name'' = JStr name" and
    k': "''name'' \<in> set (keys existing')"
    by blast
  let ?m = "merge_param existing' name required"
  let ?ps' = "ps[i := JObj ?m]"
  have step: "param_step resolve key st (JObj kvs) name required =
      Inr (st', JObj (obj_set kvs key (JArr ?ps')))"
    using arr found ex r by (simp add: param_step_def Let_def)
  have dm: "distinct (keys ?m)"
    unfolding merge_param_def using d' by (rule distinct_obj_assign)
  have nmm: "obj_get ?m ''name'' = JStr name"
    using obj_get_merge_param [OF d', of name required "''name''"] k' n' by simp
  have wm: "wf_param (JObj ?m)"
    using dm by (simp add: wf_param_def)
  have "wf_param p" if "p \<in> set ?ps'" for p
  proof -
    from that set_update_subset_insert [of ps i "JObj ?m"] have "p = JObj ?m \<or> p \<in> set ps"
      by auto
    with wf wm show ?thesis by (auto simp: list_all_iff)
  qed
  then have wf': "list_all wf_param ?ps'"
    by (simp add: list_all_iff)
  have "param_names ?ps' = (param_names ps)[i := JStr name]"
    using nmm by (simp add: param_names_def map_update)
  also have "\<dots> = param_names ps"
    using nm i by (simp add: param_names_def list_update_same_conv)
  finally have names: "param_names ?ps' = param_names ps" .
  have "JStr name \<in> set (param_names ps)"
    using nm i by (auto simp: param_names_def in_set_conv_nth intro!: image_eqI [where x = "ps ! i"])
  with step wf' names show ?thesis by auto
qed

lemma param_steps_total:
  assumes total: "\<forall>s. resolve s \<noteq> None"
  shows "list_all wf_param ps \<Longrightarrow>
     (if truthy (obj_get kvs key) then obj_get kvs key else JArr []) = JArr ps \<Longrightarrow>
     params \<noteq> [] \<Longrightarrow>
     \<exists>st' ps' new.
       param_steps resolve key st (JObj kvs) params = Inr (st', JObj (obj_set kvs key (JArr ps'))) \<and>
       list_all wf_param ps' \<and>
       param_names ps' = param_names ps @ new \<and>
       set new = JStr ` fst ` set params - set (param_names ps)"
proof (induction params arbitrary: st kvs ps)
  case Nil
  then show ?case by simp
next
  case (Cons entry rest)
  obtain name required where entry: "entry = (name, required)" by (cases entry)
  let ?new1 = "if JStr name \<in> set (param_names ps) then [] else [JStr name]"
  from param_step_total [OF Cons.prems(1) Cons.prems(2) total, of st name required]
  obtain st1 ps1 where
    step: "param_step resolve key st (JObj kvs) name required = Inr (st1, JObj (obj_set kvs key (JArr ps1)))" and
    wf1: "list_all wf_param ps1" and
    names1: "param_names ps1 = param_names ps @ ?new1"
    by blast
  let ?kvs1 = "obj_set kvs key (JArr ps1)"
  have arr1: "(if truthy (obj_get ?kvs1 key) then obj_get ?kvs1 key else JArr []) = JArr ps1"
    by (simp add: obj_get_obj_set)
  show ?case
  proof (cases "rest = []")
    case True
    have "param_steps resolve key st (JObj kvs) (entry # rest) = Inr (st1, JObj ?kvs1)"
      using step entry True by simp
    moreover have "set ?new1 = JStr ` fst ` set (entry # rest) - set (param_names ps)"
      using entry True by auto
    ultimately show ?thesis using wf1 names1 by blast
  next
    case False
    from Cons.IH [OF wf1 arr1 False, of st1] obtain st' ps' new where
      run: "param_steps resolve key st1 (JObj ?kvs1) rest = Inr (st', JObj (obj_set ?kvs1 key (JArr ps')))" and
      wf': "list_all wf_param ps'" and
      names': "param_names ps' = param_names ps1 @ new" and
      new: "set new = JStr ` fst ` set rest - set (param_names ps1)"
      by blast
    have "param_steps resolve key st (JObj kvs) (entry # rest) = Inr (st', JObj (obj_set kvs key (JArr ps')))"
      using step entry run by (simp add: obj_set_obj_set)
    moreover have "param_names ps' = param_names ps @ (?new1 @ new)"
      using names' names1 by simp
    moreover have "set (?new1 @ new) = JStr ` fst ` set (entry # rest) - set (param_names ps)"
      using new names1 entry by auto
    ultimately show ?thesis using wf' by blast
  qed
qed

lemma setDefaultParamsDocumentation_Nil:
  "setDefaultParamsDocumentation resolve st [] h key = Inr (st, h)"
  by (simp add: setDefaultParamsDocumentation_def)

lemma setDefaultParamsDocumentation_Cons:
  "setDefaultParamsDocumentation resolve st ((name, required) # rest) h key =
     (case param_step resolve key st (documentation h) name required of
        Inl e \<Rightarrow> Inl e
      | Inr (st1, doc1) \<Rightarrow> setDefaultParamsDocumentation resolve st1 rest (h\<lparr>documentation := doc1\<rparr>) key)"
  by (simp add: setDefaultParamsDocumentation_def split: sum.splits)

lemma setDefaultParamsDocumentation_total:
  assumes "list_all wf_param ps"
    and "(if truthy (obj_get kvs key) then obj_get kvs key else JArr []) = JArr ps"
    and "\<forall>s. resolve s \<noteq> None" and "documentation h = JObj kvs" and "params \<noteq> []"
  shows "\<exists>st' ps' new.
       setDefaultParamsDocumentation resolve st params h key =
         Inr (st', h\<lparr>documentation := JObj (obj_set kvs key (JArr ps'))\<rparr>) \<and>
       list_all wf_param ps' \<and>
       param_names ps' = param_names ps @ new \<and>
       set new = JStr ` fst ` set params - set (param_names ps)"
proof -
  from param_steps_total [OF assms(3) assms(1) assms(2) assms(5), of st] obtain st' ps' new where
    "param_steps resolve key st (JObj kvs) params = Inr (st', JObj (obj_set kvs key (JArr ps')))"
    "list_all wf_param ps'" "param_names ps' = param_names ps @ new"
    "set new = JStr ` fst ` set params - set (param_names ps)"
    by blast
  with assms(4) show ?thesis
    by (auto simp: setDefaultParamsDocumentation_def)
qed

lemma scan_event_documented:
  "truthy (documentation e) \<Longrightarrow>
   scan_event resolve up functionName st (Some e) =
     (case setModels resolve up st e functionName of
        Inl x \<Rightarrow> Inl x
      | Inr (st1, h1) \<Rightarrow>
          (case setDefaultParamsDocumentation resolve st1 (paths h1) h1 ''pathParams'' of
             Inl x \<Rightarrow> Inl x
           | Inr (st2, h2) \<Rightarrow>
               (case setDefaultParamsDocumentation resolve st2 (querystrings h2) h2 ''queryParams'' of
                  Inl x \<Rightarrow> Inl x
                | Inr (st3, h3) \<Rightarrow> Inr (st3, Some h3))))"
  by (simp add: scan_event_def)

text \<open>
  Claim C4. \<open>setDefaultParamsDocumentation\<close> runs one round for every pair (name,
  required) of the parameter set, in order, each round on the documentation the earlier
  rounds left; the scan calls it on the path parameters under \<open>pathParams\<close> and then on
  the query parameters under \<open>queryParams\<close>. In a round, \<open>ps\<close> is the list
  \<open>documentation[key]\<close> (empty when the key is absent or falsy). If no element of \<open>ps\<close>
  has that name, the entry \<open>{name, required, schema: {type: "string"}}\<close> is appended and
  nothing else changes. If the element at position \<open>i\<close> is the first with that name
  (and, when its schema is a string, that schema is generated), the element at position
  \<open>i\<close> is replaced by the merged entry and every other element stays: a string schema is
  replaced by the generated schema, every other property present on the entry keeps its
  value, a property the entry lacks takes the default's value, and the entry has no
  further keys. On a well-formed list, with every schema generated, the whole call
  succeeds, keeps the names of the documented entries at their positions and adds an
  entry for exactly the names of the set that were not documented.
\<close>

theorem setDefaultParamsDocumentation_every_pair:
  assumes "JArr ps = (if truthy (obj_get kvs key) then obj_get kvs key else JArr [])"
  shows "setDefaultParamsDocumentation resolve st [] h key = Inr (st, h) \<and>
         (\<forall>n r rest.
            setDefaultParamsDocumentation resolve st ((n, r) # rest) h key =
              (case param_step resolve key st (documentation h) n r of
                 Inl x \<Rightarrow> Inl x
               | Inr (st1, doc1) \<Rightarrow>
                   setDefaultParamsDocumentation resolve st1 rest (h\<lparr>documentation := doc1\<rparr>) key)) \<and>
         ((\<forall>p \<in> set ps. p \<noteq> JUndefined \<and> p \<noteq> JNull \<and> doc_get p ''name'' \<noteq> JStr name) \<longrightarrow>
            param_step resolve key st (JObj kvs) name required =
              Inr (st, JObj (obj_set kvs key (JArr (ps @
                     [JObj [(''name'', JStr name), (''required'', required),
                            (''schema'', JObj [(''type'', JStr ''string'')])]]))))) \<and>
         (\<forall>i existing.
            i < length ps \<and> ps ! i = JObj existing \<and> obj_get existing ''name'' = JStr name \<and>
            distinct (keys existing) \<and>
            (\<forall>j < i. ps ! j \<noteq> JUndefined \<and> ps ! j \<noteq> JNull \<and> doc_get (ps ! j) ''name'' \<noteq> JStr name) \<and>
            (\<forall>s. obj_get existing ''schema'' = JStr s \<longrightarrow> resolve s \<noteq> None) \<longrightarrow>
            (\<exists>st' merged.
               param_step resolve key st (JObj kvs) name required =
                 Inr (st', JObj (obj_set kvs key (JArr (ps[i := JObj merged])))) \<and>
               (\<forall>s schema. obj_get existing ''schema'' = JStr s \<and> resolve s = Some schema \<longrightarrow>
                  obj_get merged ''schema'' = schema) \<and>
               (\<forall>k \<in> set (keys existing).
                  k \<noteq> ''schema'' \<or> (\<forall>s. obj_get existing ''schema'' \<noteq> JStr s) \<longrightarrow>
                  obj_get merged k = obj_get existing k) \<and>
               (\<forall>k. k \<notin> set (keys existing) \<longrightarrow>
                  obj_get merged k =
                    obj_get [(''name'', JStr name), (''required'', required),
                             (''schema'', JObj [(''type'', JStr ''string'')])] k) \<and>
               set (keys merged) = set (keys existing) \<union> {''name'', ''required'', ''schema''} \<and>
               ((\<forall>s. obj_get existing ''schema'' \<noteq> JStr s) \<longrightarrow> st' = st))) \<and>
         (list_all wf_param ps \<and> (\<forall>s. resolve s \<noteq> None) \<and> documentation h = JObj kvs \<and> params \<noteq> [] \<longrightarrow>
            (\<exists>st' ps' new.
               setDefaultParamsDocumentation resolve st params h key =
                 Inr (st', h\<lparr>documentation := JObj (obj_set kvs key (JArr ps'))\<rparr>) \<and>
               list_all wf_param ps' \<and>
               param_names ps' = param_names ps @ new \<and>
               set new = JStr ` fst ` set params - set (param_names ps))) \<and>
         (truthy (documentation e) \<longrightarrow>
            scan_event resolve up functionName st (Some e) =
              (case setModels resolve up st e functionName of
                 Inl x \<Rightarrow> Inl x
               | Inr (st1, h1) \<Rightarrow>
                   (case setDefaultParamsDocumentation resolve st1 (paths h1) h1 ''pathParams'' of
                      Inl x \<Rightarrow> Inl x
                    | Inr (st2, h2) \<Rightarrow>
                        (case setDefaultParamsDocumentation resolve st2 (querystrings h2) h2 ''queryParams'' of
                           Inl x \<Rightarrow> Inl x
                         | Inr (st3, h3) \<Rightarrow> Inr (st3, Some h3)))))"
proof (intro conjI)
  show "setDefaultParamsDocumentation resolve st [] h key = Inr (st, h)"
    by (rule setDefaultParamsDocumentation_Nil)
  show "\<forall>n r rest.
            setDefaultParamsDocumentation resolve st ((n, r) # rest) h key =
              (case param_step resolve key st (documentation h) n r of
                 Inl x \<Rightarrow> Inl x
               | Inr (st1, doc1) \<Rightarrow>
                   setDefaultParamsDocumentation resolve st1 rest (h\<lparr>documentation := doc1\<rparr>) key)"
    by (simp add: setDefaultParamsDocumentation_Cons)
  show "(\<forall>p \<in> set ps. p \<noteq> JUndefined \<and> p \<noteq> JNull \<and> doc_get p ''name'' \<noteq> JStr name) \<longrightarrow>
            param_step resolve key st (JObj kvs) name required =
              Inr (st, JObj (obj_set kvs key (JArr (ps @
                     [JObj [(''name'', JStr name), (''required'', required),
                            (''schema'', JObj [(''type'', JStr ''string'')])]]))))"
    by (rule param_step_round [OF assms, THEN conjunct1])
  show "\<forall>i existing.
            i < length ps \<and> ps ! i = JObj existing \<and> obj_get existing ''name'' = JStr name \<and>
            distinct (keys existing) \<and>
            (\<forall>j < i. ps ! j \<noteq> JUndefined \<and> ps ! j \<noteq> JNull \<and> doc_get (ps ! j) ''name'' \<noteq> JStr name) \<and>
            (\<forall>s. obj_get existing ''schema'' = JStr s \<longrightarrow> resolve s \<noteq> None) \<longrightarrow>
            (\<exists>st' merged.
               param_step resolve key st (JObj kvs) name required =
                 Inr (st', JObj (obj_set kvs key (JArr (ps[i := JObj merged])))) \<and>
               (\<forall>s schema. obj_get existing ''schema'' = JStr s \<and> resolve s = Some schema \<longrightarrow>
                  obj_get merged ''schema'' = schema) \<and>
               (\<forall>k \<in> set (keys existing).
                  k \<noteq> ''schema'' \<or> (\<forall>s. obj_get existing ''schema'' \<noteq> JStr s) \<longrightarrow>
                  obj_get merged k = obj_get existing k) \<and>
               (\<forall>k. k \<notin> set (keys existing) \<longrightarrow>
                  obj_get merged k =
                    obj_get [(''name'', JStr name), (''required'', required),
                             (''schema'', JObj [(''type'', JStr ''string'')])] k) \<and>
               set (keys merged) = set (keys existing) \<union> {''name'', ''required'', ''schema''} \<and>
               ((\<forall>s. obj_get existing ''schema'' \<noteq> JStr s) \<longrightarrow> st' = st))"
    by (rule param_step_round [OF assms, THEN conjunct2])
  show "list_all wf_param ps \<and> (\<forall>s. resolve s \<noteq> None) \<and> documentation h = JObj kvs \<and> params \<noteq> [] \<longrightarrow>
            (\<exists>st' ps' new.
               setDefaultParamsDocumentation resolve st params h key =
                 Inr (st', h\<lparr>documentation := JObj (obj_set kvs key (JArr ps'))\<rparr>) \<and>
               list_all wf_param ps' \<and>
               param_names ps' = param_names ps @ new \<and>
               set new = JStr ` fst ` set params - set (param_names ps))"
    using setDefaultParamsDocumentation_total [OF _ assms [symmetric], of resolve h params st] by blast
  show "truthy (documentation e) \<longrightarrow>
            scan_event resolve up functionName st (Some e) =
              (case setModels resolve up st e functionName of
                 Inl x \<Rightarrow> Inl x
               | Inr (st1, h1) \<Rightarrow>
                   (case setDefaultParamsDocumentation resolve st1 (paths h1) h1 ''pathParams'' of
                      Inl x \<Rightarrow> Inl x
                    | Inr (st2, h2) \<Rightarrow>
                        (case setDefaultParamsDocumentation resolve st2 (querystrings h2) h2 ''queryParams'' of
                           Inl x \<Rightarrow> Inl x
                         | Inr (st3, h3) \<Rightarrow> Inr (st3, Some h3))))"
    by (simp add: scan_event_documented)
qed

text \<open>
  The theorem of C4 on a list that documents \<open>id\<close> with a string schema: \<open>slug\<close> is
  appended, \<open>id\<close> is merged, and the call on both pairs leaves entries for both names.
\<close>

theorem setDefaultParamsDocumentation_every_pair_witness:
  "param_step example_resolver ''pathParams'' (initial_plugin ''Api'' None)
       (JObj [(''pathParams'', JArr [JObj documented_id])]) ''slug'' (JBool False) =
     Inr (initial_plugin ''Api'' None,
          JObj [(''pathParams'', JArr [JObj documented_id,
             JObj [(''name'', JStr ''slug''), (''required'', JBool False),
                   (''schema'', JObj [(''type'', JStr ''string'')])]])]) \<and>
   (\<exists>st' merged.
      param_step example_resolver ''pathParams'' (initial_plugin ''Api'' None)
          (JObj [(''pathParams'', JArr [JObj documented_id])]) ''id'' (JBool True) =
        Inr (st', JObj [(''pathParams'', JArr [JObj merged])]) \<and>
      obj_get merged ''name'' = JStr ''id'' \<and>
      obj_get merged ''schema'' = JObj [(''title'', JStr ''Foo.Bar'')] \<and>
      obj_get merged ''description'' = JStr ''the id'' \<and>
      obj_get merged ''required'' = JBool True) \<and>
   (\<exists>st' ps'.
      setDefaultParamsDocumentation example_resolver (initial_plugin ''Api'' None)
          [(''id'', JBool True), (''slug'', JBool False)]
          (example_event ''GET'' (JObj [(''pathParams'', JArr [JObj documented_id])])) ''pathParams'' =
        Inr (st', (example_event ''GET'' (JObj [(''pathParams'', JArr [JObj documented_id])]))
                    \<lparr>documentation := JObj [(''pathParams'', JArr ps')]\<rparr>) \<and>
      set (param_names ps') = {JStr ''id'', JStr ''slug''})"
proof -
  let ?h = "example_event ''GET'' (JObj [(''pathParams'', JArr [JObj documented_id])])"
  let ?params = "[(''id'', JBool True), (''slug'', JBool False)]"
  let ?kvs = "[(''pathParams'', JArr [JObj documented_id])]"
  let ?ps = "[JObj documented_id]"
  let ?st = "initial_plugin ''Api'' None"
  have a: "JArr ?ps = (if truthy (obj_get ?kvs ''pathParams'') then obj_get ?kvs ''pathParams'' else JArr [])"
    by simp
  note slug = setDefaultParamsDocumentation_every_pair [where ps = ?ps and kvs = ?kvs
      and key = "''pathParams''" and resolve = example_resolver and st = ?st and h = ?h
      and params = ?params and name = "''slug''" and required = "JBool False", OF a]
  note id = setDefaultParamsDocumentation_every_pair [where ps = ?ps and kvs = ?kvs
      and key = "''pathParams''" and resolve = example_resolver and st = ?st and h = ?h
      and params = ?params and name = "''id''" and required = "JBool True", OF a]
  have b: "\<forall>p \<in> set ?ps. p \<noteq> JUndefined \<and> p \<noteq> JNull \<and> doc_get p ''name'' \<noteq> JStr ''slug''"
    by (simp add: documented_id_def)
  from slug [THEN conjunct2, THEN conjunct2, THEN conjunct1, THEN mp, OF b]
  have first: "param_step example_resolver ''pathParams'' ?st (JObj ?kvs) ''slug'' (JBool False) =
     Inr (?st, JObj [(''pathParams'', JArr [JObj documented_id,
             JObj [(''name'', JStr ''slug''), (''required'', JBool False),
                   (''schema'', JObj [(''type'', JStr ''string'')])]])])"
    by simp
  have c: "0 < length ?ps \<and> ?ps ! 0 = JObj documented_id \<and> obj_get documented_id ''name'' = JStr ''id'' \<and>
            distinct (keys documented_id) \<and>
            (\<forall>j < (0::nat). ?ps ! j \<noteq> JUndefined \<and> ?ps ! j \<noteq> JNull \<and> doc_get (?ps ! j) ''name'' \<noteq> JStr ''id'') \<and>
            (\<forall>s. obj_get documented_id ''schema'' = JStr s \<longrightarrow> example_resolver s \<noteq> None)"
    by (simp add: documented_id_def keys_def example_resolver_def)
  from id [THEN conjunct2, THEN conjunct2, THEN conjunct2, THEN conjunct1, THEN spec, THEN spec, THEN mp, OF c]
  obtain st' merged where
    r: "param_step example_resolver ''pathParams'' ?st (JObj ?kvs) ''id'' (JBool True) =
                 Inr (st', JObj (obj_set ?kvs ''pathParams'' (JArr (?ps[0 := JObj merged]))))" and
    sch: "\<forall>s schema. obj_get documented_id ''schema'' = JStr s \<and> example_resolver s = Some schema \<longrightarrow>
                  obj_get merged ''schema'' = schema" and
    keep: "\<forall>k \<in> set (keys documented_id).
                  k \<noteq> ''schema'' \<or> (\<forall>s. obj_get documented_id ''schema'' \<noteq> JStr s) \<longrightarrow>
                  obj_get merged k = obj_get documented_id k" and
    fill: "\<forall>k. k \<notin> set (keys documented_id) \<longrightarrow>
                  obj_get merged k =
                    obj_get [(''name'', JStr ''id''), (''required'', JBool True),
                             (''schema'', JObj [(''type'', JStr ''string'')])] k"
    by (elim exE conjE)
  from sch have 1: "obj_get merged ''schema'' = JObj [(''title'', JStr ''Foo.Bar'')]"
    by (simp add: documented_id_def example_resolver_def)
  from keep have 2: "obj_get merged ''name'' = JStr ''id''" and 3: "obj_get merged ''description'' = JStr ''the id''"
    by (simp_all add: documented_id_def keys_def)
  from fill have 4: "obj_get merged ''required'' = JBool True"
    by (simp add: documented_id_def keys_def)
  from r have "param_step example_resolver ''pathParams'' ?st (JObj ?kvs) ''id'' (JBool True) =
        Inr (st', JObj [(''pathParams'', JArr [JObj merged])])"
    by simp
  then have second: "\<exists>st' merged.
      param_step example_resolver ''pathParams'' ?st (JObj ?kvs) ''id'' (JBool True) =
        Inr (st', JObj [(''pathParams'', JArr [JObj merged])]) \<and>
      obj_get merged ''name'' = JStr ''id'' \<and>
      obj_get merged ''schema'' = JObj [(''title'', JStr ''Foo.Bar'')] \<and>
      obj_get merged ''description'' = JStr ''the id'' \<and>
      obj_get merged ''required'' = JBool True"
    using 1 2 3 4 by blast
  have d: "list_all wf_param ?ps \<and> (\<forall>s. example_resolver s \<noteq> None) \<and> documentation ?h = JObj ?kvs \<and>
           ?params \<noteq> []"
    by (simp add: wf_param_def documented_id_def keys_def example_resolver_def example_event_def)
  from id [THEN conjunct2, THEN conjunct2, THEN conjunct2, THEN conjunct2, THEN conjunct1, THEN mp, OF d]
  obtain st2 ps2 new where
    run: "setDefaultParamsDocumentation example_resolver ?st ?params ?h ''pathParams'' =
            Inr (st2, ?h\<lparr>documentation := JObj (obj_set ?kvs ''pathParams'' (JArr ps2))\<rparr>)" and
    names: "param_names ps2 = param_names ?ps @ new" and
    new: "set new = JStr ` fst ` set ?params - set (param_names ?ps)"
    by (elim exE conjE)
  have "param_names ?ps = [JStr ''id'']"
    by (simp add: param_names_def documented_id_def)
  with names new have "set (param_names ps2) = {JStr ''id'', JStr ''slug''}"
    by auto
  with run have third: "\<exists>st' ps'.
      setDefaultParamsDocumentation example_resolver ?st ?params ?h ''pathParams'' =
        Inr (st', ?h\<lparr>documentation := JObj [(''pathParams'', JArr ps')]\<rparr>) \<and>
      set (param_names ps') = {JStr ''id'', JStr ''slug''}"
    by auto
  from first second third show ?thesis by (intro conjI)
qed

section \<open>Post-processing\<close>

lemma js_prop_doc_get: "v \<noteq> JUndefined \<Longrightarrow> v \<noteq> JNull \<Longrightarrow> js_prop v k = Inr (doc_get v k)"
  by (cases v) simp_all

lemma tag_member_object:
  "is_object (snd km) \<Longrightarrow> tag_member tagName km = Inr (fst km, retag tagName (snd km))"
  by (cases "snd km") (simp_all add: tag_member_def)

lemma map_err_tag_member:
  "list_all (\<lambda>km. is_object (snd km)) ops \<Longrightarrow>
   map_err (tag_member tagName) ops = Inr (map (\<lambda>km. (fst km, retag tagName (snd km))) ops)"
  by (induction ops) (simp_all add: tag_member_object)

lemma tag_path_wf: "wf_path_item p \<Longrightarrow> tag_path tagName p = Inr (retag_item tagName p)"
  by (cases p) (simp_all add: wf_path_item_def map_err_tag_member)

lemma map_err_tag_path_member:
  "wf_paths pths \<Longrightarrow>
   map_err (tag_path_member tagName) pths =
     Inr (map (\<lambda>kp. (fst kp, retag_item tagName (snd kp))) pths)"
  by (induction pths) (simp_all add: wf_paths_def tag_path_member_def tag_path_wf)

lemma tagMethods_wf:
  assumes "obj_get kvs ''info'' = info" and "info \<noteq> JUndefined" and "info \<noteq> JNull"
    and "obj_get kvs ''paths'' = JObj pths" and "wf_paths pths"
  shows "tagMethods (JObj kvs) =
     Inr (JObj (obj_set
            (obj_set kvs ''tags''
               (JArr [JObj [(''name'', doc_get info ''title''), (''description'', doc_get info ''description'')]]))
            ''paths''
            (JObj (map (\<lambda>kp. (fst kp, retag_item (doc_get info ''title'') (snd kp))) pths))))"
  using assms
  by (simp add: tagMethods_def js_prop_doc_get obj_get_obj_set map_err_tag_path_member)

lemma doc_get_retag:
  "is_object v \<Longrightarrow> doc_get (retag tagName v) k = (if k = ''tags'' then JArr [tagName] else doc_get v k)"
  by (cases v) (simp_all add: obj_get_obj_set)

text \<open>
  Claim C7. For a document whose \<open>info\<close> is present and whose paths are well-formed,
  \<open>tagMethods\<close> sets the top-level \<open>tags\<close> to the single element
  \<open>{name: info.title, description: info.description}\<close> and, for every path and every
  operation under it, sets the operation's \<open>tags\<close> to the single element \<open>info.title\<close>,
  whatever tags it had; the paths and operations keep their keys, an operation keeps its
  other properties, and the document keeps its other top-level properties.
\<close>

theorem tagMethods_retags:
  assumes "obj_get kvs ''info'' = info" and "info \<noteq> JUndefined" and "info \<noteq> JNull"
    and "obj_get kvs ''paths'' = JObj pths" and "wf_paths pths"
  shows "\<exists>kvs' pths'.
     tagMethods (JObj kvs) = Inr (JObj kvs') \<and>
     obj_get kvs' ''tags'' =
       JArr [JObj [(''name'', doc_get info ''title''), (''description'', doc_get info ''description'')]] \<and>
     obj_get kvs' ''paths'' = JObj pths' \<and>
     keys pths' = keys pths \<and>
     (\<forall>i < length pths. \<forall>ops. snd (pths ! i) = JObj ops \<longrightarrow>
        (\<exists>ops'. snd (pths' ! i) = JObj ops' \<and> keys ops' = keys ops \<and>
           (\<forall>j < length ops.
              doc_get (snd (ops' ! j)) ''tags'' = JArr [doc_get info ''title''] \<and>
              (\<forall>k. k \<noteq> ''tags'' \<longrightarrow> doc_get (snd (ops' ! j)) k = doc_get (snd (ops ! j)) k)))) \<and>
     (\<forall>k. k \<noteq> ''tags'' \<and> k \<noteq> ''paths'' \<longrightarrow> obj_get kvs' k = obj_get kvs k)"
proof -
  let ?t = "doc_get info ''title''"
  let ?tags = "JArr [JObj [(''name'', ?t), (''description'', doc_get info ''description'')]]"
  let ?pths' = "map (\<lambda>kp. (fst kp, retag_item ?t (snd kp))) pths"
  let ?kvs' = "obj_set (obj_set kvs ''tags'' ?tags) ''paths'' (JObj ?pths')"
  have run: "tagMethods (JObj kvs) = Inr (JObj ?kvs')"
    using assms by (rule tagMethods_wf)
  have tags: "obj_get ?kvs' ''tags'' = ?tags"
    by (simp add: obj_get_obj_set)
  have paths: "obj_get ?kvs' ''paths'' = JObj ?pths'"
    by (simp add: obj_get_obj_set)
  have ks: "keys ?pths' = keys pths"
    by (simp add: keys_def comp_def)
  have rest: "\<forall>k. k \<noteq> ''tags'' \<and> k \<noteq> ''paths'' \<longrightarrow> obj_get ?kvs' k = obj_get kvs k"
    by (simp add: obj_get_obj_set)
  have ops: "\<exists>ops'. snd (?pths' ! i) = JObj ops' \<and> keys ops' = keys ops \<and>
           (\<forall>j < length ops.
              doc_get (snd (ops' ! j)) ''tags'' = JArr [?t] \<and>
              (\<forall>k. k \<noteq> ''tags'' \<longrightarrow> doc_get (snd (ops' ! j)) k = doc_get (snd (ops ! j)) k))"
    if i: "i < length pths" and o: "snd (pths ! i) = JObj ops" for i ops
  proof -
    let ?ops' = "map (\<lambda>km. (fst km, retag ?t (snd km))) ops"
    from i o have a: "snd (?pths' ! i) = JObj ?ops'" by simp
    have b: "keys ?ops' = keys ops" by (simp add: keys_def comp_def)
    from i assms(5) have "wf_path_item (snd (pths ! i))"
      by (simp add: wf_paths_def list_all_length)
    with o have obj: "\<forall>j < length ops. is_object (snd (ops ! j))"
      by (simp add: wf_path_item_def list_all_length)
    have c: "\<forall>j < length ops.
              doc_get (snd (?ops' ! j)) ''tags'' = JArr [?t] \<and>
              (\<forall>k. k \<noteq> ''tags'' \<longrightarrow> doc_get (snd (?ops' ! j)) k = doc_get (snd (ops ! j)) k)"
      using obj by (simp add: doc_get_retag)
    show ?thesis
    proof (intro exI conjI)
      show "snd (?pths' ! i) = JObj ?ops'" by (rule a)
      show "keys ?ops' = keys ops" by (rule b)
      show "\<forall>j < length ops.
              doc_get (snd (?ops' ! j)) ''tags'' = JArr [?t] \<and>
              (\<forall>k. k \<noteq> ''tags'' \<longrightarrow> doc_get (snd (?ops' ! j)) k = doc_get (snd (ops ! j)) k)"
        by (rule c)
    qed
  qed
  show ?thesis
  proof (intro exI conjI)
    show "tagMethods (JObj kvs) = Inr (JObj ?kvs')" by (rule run)
    show "obj_get ?kvs' ''tags'' = ?tags" by (rule tags)
    show "obj_get ?kvs' ''paths'' = JObj ?pths'" by (rule paths)
    show "keys ?pths' = keys pths" by (rule ks)
    show "\<forall>i < length pths. \<forall>ops. snd (pths ! i) = JObj ops \<longrightarrow>
        (\<exists>ops'. snd (?pths' ! i) = JObj ops' \<and> keys ops' = keys ops \<and>
           (\<forall>j < length ops.
              doc_get (snd (ops' ! j)) ''tags'' = JArr [?t] \<and>
              (\<forall>k. k \<noteq> ''tags'' \<longrightarrow> doc_get (snd (ops' ! j)) k = doc_get (snd (ops ! j)) k)))"
      using ops by (intro allI impI)
    show "\<forall>k. k \<noteq> ''tags'' \<and> k \<noteq> ''paths'' \<longrightarrow> obj_get ?kvs' k = obj_get kvs k" by (rule rest)
  qed
qed

text \<open>The theorem of C7 on the document titled Orders API, one of whose operations has an old tag.\<close>

theorem tagMethods_retags_witness:
  "\<exists>kvs' pths'.
     tagMethods (JObj example_document) = Inr (JObj kvs') \<and>
     obj_get kvs' ''tags'' = JArr [JObj [(''name'', JStr ''Orders API''), (''description'', JStr ''Orders'')]] \<and>
     obj_get kvs' ''paths'' = JObj pths' \<and>
     (\<exists>ops'. snd (pths' ! 0) = JObj ops' \<and>
        doc_get (snd (ops' ! 0)) ''tags'' = JArr [JStr ''Orders API''] \<and>
        doc_get (snd (ops' ! 1)) ''tags'' = JArr [JStr ''Orders API''] \<and>
        doc_get (snd (ops' ! 0)) ''summary'' = JStr ''list'')"
proof -
  let ?info = "JObj [(''title'', JStr ''Orders API''), (''description'', JStr ''Orders'')]"
  let ?ops = "[(''get'', JObj [(''tags'', JArr [JStr ''old'']), (''summary'', JStr ''list'')]),
                (''post'', JObj [(''summary'', JStr ''create'')])]"
  have a: "obj_get example_document ''info'' = ?info"
    by (simp add: example_document_def)
  have b: "?info \<noteq> JUndefined" "?info \<noteq> JNull" by simp_all
  have c: "obj_get example_document ''paths'' = JObj example_paths"
    by (simp add: example_document_def example_paths_def)
  have d: "wf_paths example_paths"
    by (simp add: wf_paths_def wf_path_item_def example_paths_def)
  from tagMethods_retags [OF a b c d] obtain kvs' pths' where
    r: "tagMethods (JObj example_document) = Inr (JObj kvs')" and
    t: "obj_get kvs' ''tags'' =
          JArr [JObj [(''name'', doc_get ?info ''title''), (''description'', doc_get ?info ''description'')]]" and
    p: "obj_get kvs' ''paths'' = JObj pths'" and
    o: "\<forall>i < length example_paths. \<forall>ops. snd (example_paths ! i) = JObj ops \<longrightarrow>
        (\<exists>ops'. snd (pths' ! i) = JObj ops' \<and> keys ops' = keys ops \<and>
           (\<forall>j < length ops.
              doc_get (snd (ops' ! j)) ''tags'' = JArr [doc_get ?info ''title''] \<and>
              (\<forall>k. k \<noteq> ''tags'' \<longrightarrow> doc_get (snd (ops' ! j)) k = doc_get (snd (ops ! j)) k)))"
    by (elim exE conjE)
  have "0 < length example_paths" and "snd (example_paths ! 0) = JObj ?ops"
    by (simp_all add: example_paths_def)
  with o obtain ops' where
    o1: "snd (pths' ! 0) = JObj ops'" and
    o2: "\<forall>j < length ?ops.
              doc_get (snd (ops' ! j)) ''tags'' = JArr [doc_get ?info ''title''] \<and>
              (\<forall>k. k \<noteq> ''tags'' \<longrightarrow> doc_get (snd (ops' ! j)) k = doc_get (snd (?ops ! j)) k)"
    by blast
  from o2 have g0: "doc_get (snd (ops' ! 0)) ''tags'' = JArr [JStr ''Orders API'']"
    and s0: "doc_get (snd (ops' ! 0)) ''summary'' = JStr ''list''"
    by simp_all
  from o2 have "(1::nat) < length ?ops \<longrightarrow> doc_get (snd (ops' ! 1)) ''tags'' = JArr [doc_get ?info ''title'']"
    by blast
  then have g1: "doc_get (snd (ops' ! 1)) ''tags'' = JArr [JStr ''Orders API'']"
    by simp
  from t have t': "obj_get kvs' ''tags'' = JArr [JObj [(''name'', JStr ''Orders API''), (''description'', JStr ''Orders'')]]"
    by simp
  show ?thesis
  proof (intro exI conjI)
    show "tagMethods (JObj example_document) = Inr (JObj kvs')" by (rule r)
    show "obj_get kvs' ''tags'' = JArr [JObj [(''name'', JStr ''Orders API''), (''description'', JStr ''Orders'')]]"
      by (rule t')
    show "obj_get kvs' ''paths'' = JObj pths'" by (rule p)
    show "snd (pths' ! 0) = JObj ops'" by (rule o1)
    show "doc_get (snd (ops' ! 0)) ''tags'' = JArr [JStr ''Orders API'']" by (rule g0)
    show "doc_get (snd (ops' ! 1)) ''tags'' = JArr [JStr ''Orders API'']" by (rule g1)
    show "doc_get (snd (ops' ! 0)) ''summary'' = JStr ''list''" by (rule s0)
  qed
qed

text \<open>
  Claim C6 does not hold of the code: \<open>postProcessOpenApi\<close> hands the output path, not the
  contents of the file at that path, to the YAML parser. Its result is the same whatever
  the file contains; and when the parser reads the path as a plain scalar, assigning
  \<open>openapi\<close> to that string throws in strict mode and nothing is written.
\<close>

theorem postProcessOpenApi_parses_the_path:
  "postProcessOpenApi yaml_load yaml_dump (fs(outputFile \<mapsto> contents)) outputFile =
     postProcessOpenApi yaml_load yaml_dump (fs(outputFile \<mapsto> other_contents)) outputFile \<and>
   (yaml_load outputFile = Some (JStr outputFile) \<longrightarrow>
      postProcessOpenApi yaml_load yaml_dump fs outputFile = Inl TypeError)"
  by (auto simp: postProcessOpenApi_def patchOpenApiVersion_def split: option.splits sum.splits)

text \<open>The theorem of C6 on the output path \<^verbatim>\<open>openapi.yml\<close>.\<close>

theorem postProcessOpenApi_parses_the_path_witness:
  "postProcessOpenApi plain_scalar_load empty_dump
     [''openapi.yml'' \<mapsto> ''openapi: 3.0.0''] ''openapi.yml'' = Inl TypeError"
proof -
  have "plain_scalar_load ''openapi.yml'' = Some (JStr ''openapi.yml'')"
    by (simp add: plain_scalar_load_def)
  with postProcessOpenApi_parses_the_path [where yaml_load = plain_scalar_load and yaml_dump = empty_dump
      and outputFile = "''openapi.yml''" and fs = "[''openapi.yml'' \<mapsto> ''openapi: 3.0.0'']"
      and contents = "[]" and other_contents = "[]"]
  show ?thesis by blast
qed

text \<open>On a document that is an object, the version is overwritten whatever it was.\<close>

lemma patchOpenApiVersion_object:
  "\<exists>kvs'. patchOpenApiVersion (JObj kvs) = Inr (JObj kvs') \<and> obj_get kvs' ''openapi'' = JStr ''3.1.0'' \<and>
          (\<forall>k. k \<noteq> ''openapi'' \<longrightarrow> obj_get kvs' k = obj_get kvs k)"
  by (simp add: patchOpenApiVersion_def obj_get_obj_set)

end
